theory Spec2Isabelle
  imports Complex_Main
begin

section \<open>Data model of \<^verbatim>\<open>cnv_script_karim\<close> (src/cnv.py)\<close>

text \<open>
  The script is one long function working on spreadsheets. The embedding keeps its
  local names. Conventions:
  \<^item> a Python \<^verbatim>\<open>dict\<close> is an association list in insertion order with unique keys
    (\<open>dict_set\<close> overwrites in place, as assignment to an existing key does), read
    with \<open>map_of\<close>; a failed lookup \<^verbatim>\<open>d[k]\<close> is \<open>KeyError\<close>;
  \<^item> an exception is the \<open>Inl\<close> branch of a sum; the script catches nothing, so the
    first exception ends the run;
  \<^item> read counts are integers (the script writes \<^verbatim>\<open>int(...)\<close> of the text cell into
    the coverage matrix); their sums and differences are exact;
  \<^item> a ratio, a baseline and a threshold are Python floats: binary64 numbers, each
    modelled by the rational it denotes, with \<open>NaN\<close> added where \<^verbatim>\<open>numpy.mean\<close> of an
    empty list produces it. The three floating-point operations of the script, the
    division \<^verbatim>\<open>x / y\<close>, \<^verbatim>\<open>round(x, 3)\<close> and \<^verbatim>\<open>numpy.mean\<close>, round their results
    (and \<^verbatim>\<open>numpy.mean\<close> adds in an order of its own); the model does not compute them.
    They are the fields of the parameter \<open>ops\<close> that every function calling one of
    them takes, and each theorem holds for every \<open>ops\<close>. What the model fixes is
    where the script calls them and on which values, that a division by zero is
    \<open>ZeroDivisionError\<close>, and that the mean of no value is \<open>NaN\<close>;
  \<^item> a worksheet column holding ids is the list of the texts \<^verbatim>\<open>str(cell_value)\<close>;
  \<^item> a line of an anomaly text file or a written spreadsheet row is the tuple of the
    values formatted into it.
\<close>

datatype py_error = KeyError | ZeroDivisionError | ValueError

datatype pyfloat = Fin rat | NaN

record float_ops =
  truediv :: "rat \<Rightarrow> rat \<Rightarrow> rat"
  round_3 :: "rat \<Rightarrow> rat"
  numpy_mean :: "rat list \<Rightarrow> rat"

datatype cell_format = no_format | cell_formatRED | cell_formatBLUE

datatype classification = Deletion | Duplication | Normal

type_synonym ('k, 'v) dict = "('k \<times> 'v) list"

fun dict_set :: "('k, 'v) dict \<Rightarrow> 'k \<Rightarrow> 'v \<Rightarrow> ('k, 'v) dict" where
  "dict_set [] k v = [(k, v)]"
| "dict_set ((k', v') # d) k v = (if k' = k then (k, v) # d else (k', v') # dict_set d k v)"

text \<open>\<^verbatim>\<open>s.replace(".0", "")\<close>: every non-overlapping occurrence, left to right.\<close>

fun replace_dot0 :: "string \<Rightarrow> string" where
  "replace_dot0 [] = []"
| "replace_dot0 [c] = [c]"
| "replace_dot0 (c # c' # s) =
     (if c = CHR ''.'' \<and> c' = CHR ''0'' then replace_dot0 s else c # replace_dot0 (c' # s))"

text \<open>\<^verbatim>\<open>s.find(g) != -1\<close>: \<open>g\<close> occurs in \<open>s\<close> as a contiguous substring.\<close>

fun startswith :: "string \<Rightarrow> string \<Rightarrow> bool" where
  "startswith s [] = True"
| "startswith [] (c # g) = False"
| "startswith (c' # s) (c # g) = (c' = c \<and> startswith s g)"

fun str_contains :: "string \<Rightarrow> string \<Rightarrow> bool" where
  "str_contains [] g = (g = [])"
| "str_contains (c # s) g = (startswith (c # s) g \<or> str_contains s g)"

section \<open>Amplicon stage (lines 565--780)\<close>

text \<open>
  A patient's column of the coverage matrix \<^verbatim>\<open>fichierEntreCNV_ALLpatients.xlsx\<close> is the
  list of (region id, read count) of its rows 1.., in row order.
\<close>

definition somme_colonnePatientX :: "(string \<times> int) list \<Rightarrow> int" where
  "somme_colonnePatientX col = foldl (\<lambda>somme_colPatX (a, c). somme_colPatX + c) 0 col"

definition moy_Norm_TemoinsPorphy :: "(string \<times> rat) list \<Rightarrow> (string, rat) dict" where
  "moy_Norm_TemoinsPorphy rows = foldl (\<lambda>d (a, v). dict_set d (replace_dot0 a) v) [] rows"

fun moy_Norm_rows ::
  "float_ops \<Rightarrow> (string \<times> int) list \<Rightarrow> (string \<times> int) list \<Rightarrow> (string, rat) dict
     \<Rightarrow> py_error + (string, rat) dict" where
  "moy_Norm_rows ops col [] dictPatient = Inr dictPatient"
| "moy_Norm_rows ops col ((a, c) # rows) dictPatient =
     (if somme_colonnePatientX col - c = 0 then Inl ZeroDivisionError
      else moy_Norm_rows ops col rows
             (dict_set dictPatient (replace_dot0 a)
                (truediv ops (of_int c) (of_int (somme_colonnePatientX col - c)))))"

definition moy_Norm_dict_patient :: "float_ops \<Rightarrow> (string \<times> int) list \<Rightarrow> py_error + (string, rat) dict" where
  "moy_Norm_dict_patient ops col = moy_Norm_rows ops col col []"

fun dictRatio_items ::
  "float_ops \<Rightarrow> (string, rat) dict \<Rightarrow> (string \<times> rat) list \<Rightarrow> (string, rat) dict
     \<Rightarrow> py_error + (string, rat) dict" where
  "dictRatio_items ops temoins [] dictRatio = Inr dictRatio"
| "dictRatio_items ops temoins ((kle, val) # items) dictRatio =
     (case map_of temoins kle of
        None \<Rightarrow> Inl KeyError
      | Some t \<Rightarrow>
          if t = 0 then Inl ZeroDivisionError
          else dictRatio_items ops temoins items (dict_set dictRatio kle
                 (round_3 ops (truediv ops val t))))"

text \<open>The row written to \<^verbatim>\<open>Resultat_Ratio_*.xlsx\<close>: chromosome, amplicon id, ratio, format.\<close>

type_synonym amp_row = "string \<times> string \<times> rat \<times> cell_format"

fun write_amp_rows ::
  "rat \<Rightarrow> rat \<Rightarrow> (string, string) dict \<Rightarrow> (string, rat) dict \<Rightarrow> string list
     \<Rightarrow> py_error + amp_row list" where
  "write_amp_rows deletion_threshold duplication_threshold dictChromosome dictRatio [] = Inr []"
| "write_amp_rows deletion_threshold duplication_threshold dictChromosome dictRatio (item # items) =
     (case map_of dictRatio item of
        None \<Rightarrow> Inl KeyError
      | Some r \<Rightarrow>
         (case map_of dictChromosome item of
            None \<Rightarrow> Inl KeyError
          | Some chr \<Rightarrow>
             (case write_amp_rows deletion_threshold duplication_threshold dictChromosome
                     dictRatio items of
                Inl e \<Rightarrow> Inl e
              | Inr rows \<Rightarrow>
                  Inr ((chr, item, r,
                        if r < deletion_threshold then cell_formatRED
                        else if r \<ge> duplication_threshold then cell_formatBLUE
                        else no_format) # rows))))"

text \<open>
  A line of \<^verbatim>\<open>Fichier_Anomalies des patients_*.txt\<close>: which of the two texts
  (deletion or duplication), chromosome, id, ratio.
\<close>

type_synonym amp_line = "classification \<times> string \<times> string \<times> rat"

fun deletion_lines ::
  "rat \<Rightarrow> (string, string) dict \<Rightarrow> (string, rat) dict \<Rightarrow> string list
     \<Rightarrow> py_error + amp_line list" where
  "deletion_lines deletion_threshold dictChromosome dictRatio [] = Inr []"
| "deletion_lines deletion_threshold dictChromosome dictRatio (cle # cles) =
     (case map_of dictRatio cle of
        None \<Rightarrow> Inl KeyError
      | Some r \<Rightarrow>
          if r < deletion_threshold then
            (case map_of dictChromosome cle of
               None \<Rightarrow> Inl KeyError
             | Some chr \<Rightarrow>
                (case deletion_lines deletion_threshold dictChromosome dictRatio cles of
                   Inl e \<Rightarrow> Inl e
                 | Inr ls \<Rightarrow> Inr ((Deletion, chr, cle, r) # ls)))
          else deletion_lines deletion_threshold dictChromosome dictRatio cles)"

fun duplication_lines ::
  "rat \<Rightarrow> (string, string) dict \<Rightarrow> (string, rat) dict \<Rightarrow> string list
     \<Rightarrow> py_error + amp_line list" where
  "duplication_lines duplication_threshold dictChromosome dictRatio [] = Inr []"
| "duplication_lines duplication_threshold dictChromosome dictRatio (cle # cles) =
     (case map_of dictRatio cle of
        None \<Rightarrow> Inl KeyError
      | Some r \<Rightarrow>
          if r \<ge> duplication_threshold then
            (case map_of dictChromosome cle of
               None \<Rightarrow> Inl KeyError
             | Some chr \<Rightarrow>
                (case duplication_lines duplication_threshold dictChromosome dictRatio cles of
                   Inl e \<Rightarrow> Inl e
                 | Inr ls \<Rightarrow> Inr ((Duplication, chr, cle, r) # ls)))
          else duplication_lines duplication_threshold dictChromosome dictRatio cles)"

record amp_output =
  sheet_rows :: "amp_row list"
  anomaly_lines :: "amp_line list"

text \<open>
  One turn of the loop of lines 650--778 (the scatter plot of the amplicons, which
  raises nothing and feeds nothing, is left out). \<open>temoins\<close> is
  \<^verbatim>\<open>dict_moy_Norm_TemoinsPorphy\<close>, \<open>ordonnee\<close> the rows (chromosome, id) of
  \<^verbatim>\<open>fichierOrdonnee\<close>, from which the script builds \<^verbatim>\<open>listeOrdonneeAmpli\<close> and
  \<^verbatim>\<open>dictChromosome\<close>.
\<close>

definition listeOrdonneeAmpli :: "(string \<times> string) list \<Rightarrow> string list" where
  "listeOrdonneeAmpli ordonnee = map (\<lambda>(chr, a). replace_dot0 a) ordonnee"

definition dictChrm :: "(string \<times> string) list \<Rightarrow> (string, string) dict" where
  "dictChrm ordonnee = foldl (\<lambda>d (chr, a). dict_set d (replace_dot0 a) chr) [] ordonnee"

definition amplicon_patient ::
  "float_ops \<Rightarrow> rat \<Rightarrow> rat \<Rightarrow> (string, rat) dict \<Rightarrow> (string \<times> string) list \<Rightarrow> (string \<times> int) list
     \<Rightarrow> py_error + amp_output" where
  "amplicon_patient ops deletion_threshold duplication_threshold temoins ordonnee col =
     (case moy_Norm_dict_patient ops col of
        Inl e \<Rightarrow> Inl e
      | Inr moy_Norm_dict_patientEC \<Rightarrow>
     (case dictRatio_items ops temoins moy_Norm_dict_patientEC [] of
        Inl e \<Rightarrow> Inl e
      | Inr dictRatio \<Rightarrow>
     (case write_amp_rows deletion_threshold duplication_threshold (dictChrm ordonnee) dictRatio
             (listeOrdonneeAmpli ordonnee) of
        Inl e \<Rightarrow> Inl e
      | Inr rows \<Rightarrow>
     (case deletion_lines deletion_threshold (dictChrm ordonnee) dictRatio
             (listeOrdonneeAmpli ordonnee) of
        Inl e \<Rightarrow> Inl e
      | Inr dels \<Rightarrow>
     (case duplication_lines duplication_threshold (dictChrm ordonnee) dictRatio
             (listeOrdonneeAmpli ordonnee) of
        Inl e \<Rightarrow> Inl e
      | Inr dups \<Rightarrow> Inr \<lparr>sheet_rows = rows, anomaly_lines = dels @ dups\<rparr>)))))"

section \<open>Coverage matrix (lines 501--553)\<close>

text \<open>
  The cells of a patient's sheet are texts (the script wrote them with \<^verbatim>\<open>xlwt\<close> from
  the tab-separated export), so \<^verbatim>\<open>int(...)\<close> parses a decimal literal: white space
  around it, one optional sign, digits with single underscores between them; anything
  else is \<open>ValueError\<close>. A text is the list of its characters, each a code point
  below 256; there the white space of \<^verbatim>\<open>int\<close> is the characters 9 to 13, 32, 133 and
  160, and its digits are the ten ASCII digits.
\<close>

definition is_space :: "char \<Rightarrow> bool" where
  "is_space c = (of_char c \<in> {9, 10, 11, 12, 13, 32, 133, 160 :: nat})"

definition is_digit :: "char \<Rightarrow> bool" where
  "is_digit c = (48 \<le> (of_char c :: nat) \<and> (of_char c :: nat) \<le> 57)"

definition digit_val :: "char \<Rightarrow> nat" where
  "digit_val c = of_char c - 48"

fun py_digits_rest :: "nat \<Rightarrow> string \<Rightarrow> nat option" where
  "py_digits_rest acc [] = Some acc"
| "py_digits_rest acc [c] = (if is_digit c then Some (10 * acc + digit_val c) else None)"
| "py_digits_rest acc (c # c' # s) =
     (if is_digit c then py_digits_rest (10 * acc + digit_val c) (c' # s)
      else if c = CHR ''_'' \<and> is_digit c' then py_digits_rest (10 * acc + digit_val c') s
      else None)"

definition py_digits :: "string \<Rightarrow> nat option" where
  "py_digits s =
     (case s of [] \<Rightarrow> None
      | c # s' \<Rightarrow> if is_digit c then py_digits_rest (digit_val c) s' else None)"

definition py_strip :: "string \<Rightarrow> string" where
  "py_strip s = rev (dropWhile is_space (rev (dropWhile is_space s)))"

definition py_int :: "string \<Rightarrow> py_error + int" where
  "py_int s =
     (case py_strip s of
        [] \<Rightarrow> Inl ValueError
      | c # t \<Rightarrow>
          if c = CHR ''-'' then
            (case py_digits t of None \<Rightarrow> Inl ValueError | Some n \<Rightarrow> Inr (- int n))
          else if c = CHR ''+'' then
            (case py_digits t of None \<Rightarrow> Inl ValueError | Some n \<Rightarrow> Inr (int n))
          else
            (case py_digits (c # t) of None \<Rightarrow> Inl ValueError | Some n \<Rightarrow> Inr (int n)))"

text \<open>
  \<open>panel\<close> is the rows (chromosome, amplicon id, gene) of \<^verbatim>\<open>fichierListeOrdonnee\<close>
  (columns 0, 3, 5); a sample is the rows (amplicon id, read count) of its sheet
  (columns 3, 9).
\<close>

definition listOrdonneeAMP :: "(string \<times> string \<times> string) list \<Rightarrow> string list" where
  "listOrdonneeAMP panel = map (\<lambda>(chr, a, g). replace_dot0 a) panel"

definition dictAmpliGene :: "(string \<times> string \<times> string) list \<Rightarrow> (string, string) dict" where
  "dictAmpliGene panel = foldl (\<lambda>d (chr, a, g). dict_set d (replace_dot0 a) g) [] panel"

definition dictAmpliChr :: "(string \<times> string \<times> string) list \<Rightarrow> (string, string) dict" where
  "dictAmpliChr panel = foldl (\<lambda>d (chr, a, g). dict_set d (replace_dot0 a) chr) [] panel"

definition dictPatientEnCours :: "(string \<times> string) list \<Rightarrow> (string, string) dict" where
  "dictPatientEnCours sample = foldl (\<lambda>d (a, n). dict_set d a n) [] sample"

text \<open>The rows (gene, amplicon id, read count) written for one patient, in panel order.\<close>

fun coverage_rows ::
  "(string, string) dict \<Rightarrow> (string, string) dict \<Rightarrow> string list
     \<Rightarrow> py_error + (string \<times> string \<times> int) list" where
  "coverage_rows dAmpliGene dPatient [] = Inr []"
| "coverage_rows dAmpliGene dPatient (ampli_LO # rest) =
     (case map_of dAmpliGene ampli_LO of
        None \<Rightarrow> Inl KeyError
      | Some gene \<Rightarrow>
         (case map_of dPatient ampli_LO of
            None \<Rightarrow> Inl KeyError
          | Some txt \<Rightarrow>
             (case py_int txt of
                Inl e \<Rightarrow> Inl e
              | Inr n \<Rightarrow>
                 (case coverage_rows dAmpliGene dPatient rest of
                    Inl e \<Rightarrow> Inl e
                  | Inr rows \<Rightarrow> Inr ((gene, ampli_LO, n) # rows)))))"

text \<open>The patient's column as the amplicon stage reads it back: (region id, count).\<close>

definition coverage_column ::
  "(string \<times> string \<times> string) list \<Rightarrow> (string \<times> string) list
     \<Rightarrow> py_error + (string \<times> int) list" where
  "coverage_column panel sample =
     (case coverage_rows (dictAmpliGene panel) (dictPatientEnCours sample) (listOrdonneeAMP panel) of
        Inl e \<Rightarrow> Inl e
      | Inr rows \<Rightarrow> Inr (map (\<lambda>(gene, a, n). (a, n)) rows))"

section \<open>Gene stage (lines 786--1021)\<close>

definition listeGeneNonInterets :: "string list" where
  "listeGeneNonInterets =
     [''PENTA'', ''224830378'', ''224869380'', ''224862488'', ''224879644'', ''224829586'',
      ''224851112'', ''TH01'', ''224825605'', ''224824531'', ''AMEX'', ''AMEY'',
      ''D1MS201754411'', ''MON27'', ''BAT26'', ''D2MS62063094'', ''NR24'', ''BAT25'',
      ''D5MS172421761'', ''D6MS142691951'', ''D7MS1787520'', ''D7MS74608741'',
      ''D11MS106695515'', ''D13MS31722621'', ''NR21'', ''D15MS45897772'', ''D16MS18882660'',
      ''D17MS19314918'']"

text \<open>
  \<^verbatim>\<open>listeNomGene = set(listeNomGene0)\<close>: Python fixes no iteration order for a set; the
  model takes the order of first occurrence.
\<close>

definition listeNomGene :: "string list \<Rightarrow> string list" where
  "listeNomGene nomGenes = remdups (map replace_dot0 nomGenes)"

text \<open>Comparisons of a float that may be NaN with a threshold: all false on NaN.\<close>

fun pf_lt :: "pyfloat \<Rightarrow> rat \<Rightarrow> bool" where
  "pf_lt (Fin x) t = (x < t)"
| "pf_lt NaN t = False"

fun pf_ge :: "pyfloat \<Rightarrow> rat \<Rightarrow> bool" where
  "pf_ge (Fin x) t = (x \<ge> t)"
| "pf_ge NaN t = False"

fun pf_gt :: "pyfloat \<Rightarrow> rat \<Rightarrow> bool" where
  "pf_gt (Fin x) t = (x > t)"
| "pf_gt NaN t = False"

text \<open>
  \<^verbatim>\<open>numpy.mean\<close> of a list of floats: NaN (and a warning, no exception) on the empty
  list, else the mean as \<^verbatim>\<open>numpy\<close> computes it.
\<close>

definition np_mean :: "float_ops \<Rightarrow> rat list \<Rightarrow> pyfloat" where
  "np_mean ops xs = (if xs = [] then NaN else Fin (numpy_mean ops xs))"

text \<open>A row of the ratio sheet read back for one patient: chromosome, amplicon id, ratio.\<close>

type_synonym fmr_row = "string \<times> string \<times> rat"

definition matching_rows :: "string \<Rightarrow> fmr_row list \<Rightarrow> fmr_row list" where
  "matching_rows gene feui_FMR =
     filter (\<lambda>(chr, a, r). str_contains (replace_dot0 a) gene) feui_FMR"

fun aggregate_genes ::
  "float_ops \<Rightarrow> fmr_row list \<Rightarrow> string list \<Rightarrow> (string, pyfloat) dict \<times> (string, string) dict
     \<Rightarrow> (string, pyfloat) dict \<times> (string, string) dict" where
  "aggregate_genes ops feui_FMR [] (dictRatioParGene, dictChromoso) = (dictRatioParGene, dictChromoso)"
| "aggregate_genes ops feui_FMR (gene # genes) (dictRatioParGene, dictChromoso) =
     aggregate_genes ops feui_FMR genes
       (dict_set dictRatioParGene gene
          (np_mean ops (map (\<lambda>(chr, a, r). r) (matching_rows gene feui_FMR))),
        foldl (\<lambda>d (chr, a, r). dict_set d gene chr) dictChromoso (matching_rows gene feui_FMR))"

type_synonym gene_line = "classification \<times> string \<times> string \<times> pyfloat"

fun gene_deletion_lines ::
  "rat \<Rightarrow> (string, pyfloat) dict \<Rightarrow> (string, string) dict \<Rightarrow> string list
     \<Rightarrow> py_error + gene_line list" where
  "gene_deletion_lines deletion_threshold dictRatioParGene dictChromoso [] = Inr []"
| "gene_deletion_lines deletion_threshold dictRatioParGene dictChromoso (geneName # genes) =
     (case map_of dictRatioParGene geneName of
        None \<Rightarrow> Inl KeyError
      | Some r \<Rightarrow>
          if pf_lt r deletion_threshold \<and> geneName \<notin> set listeGeneNonInterets then
            (case map_of dictChromoso geneName of
               None \<Rightarrow> Inl KeyError
             | Some chr \<Rightarrow>
                (case gene_deletion_lines deletion_threshold dictRatioParGene dictChromoso genes of
                   Inl e \<Rightarrow> Inl e
                 | Inr ls \<Rightarrow> Inr ((Deletion, chr, geneName, r) # ls)))
          else gene_deletion_lines deletion_threshold dictRatioParGene dictChromoso genes)"

fun gene_duplication_lines ::
  "rat \<Rightarrow> (string, pyfloat) dict \<Rightarrow> (string, string) dict \<Rightarrow> string list
     \<Rightarrow> py_error + gene_line list" where
  "gene_duplication_lines duplication_threshold dictRatioParGene dictChromoso [] = Inr []"
| "gene_duplication_lines duplication_threshold dictRatioParGene dictChromoso (geneName # genes) =
     (case map_of dictRatioParGene geneName of
        None \<Rightarrow> Inl KeyError
      | Some r \<Rightarrow>
          if pf_ge r duplication_threshold \<and> geneName \<notin> set listeGeneNonInterets then
            (case map_of dictChromoso geneName of
               None \<Rightarrow> Inl KeyError
             | Some chr \<Rightarrow>
                (case gene_duplication_lines duplication_threshold dictRatioParGene dictChromoso
                        genes of
                   Inl e \<Rightarrow> Inl e
                 | Inr ls \<Rightarrow> Inr ((Duplication, chr, geneName, r) # ls)))
          else gene_duplication_lines duplication_threshold dictRatioParGene dictChromoso genes)"

text \<open>
  A row of \<^verbatim>\<open>Resultat_MeanRatioGene_*.xlsx\<close>: row number, chromosome, gene, mean ratio,
  format. The chromosome is looked up first in each of the three branches.
\<close>

type_synonym gene_row = "nat \<times> string \<times> string \<times> pyfloat \<times> cell_format"

fun write_gene_rows ::
  "rat \<Rightarrow> rat \<Rightarrow> (string, pyfloat) dict \<Rightarrow> (string, string) dict \<Rightarrow> nat \<Rightarrow> string list
     \<Rightarrow> py_error + gene_row list" where
  "write_gene_rows deletion_threshold duplication_threshold dictRatioParGene dictChromoso ligne [] =
     Inr []"
| "write_gene_rows deletion_threshold duplication_threshold dictRatioParGene dictChromoso ligne
     (geneName # genes) =
     (case map_of dictRatioParGene geneName of
        None \<Rightarrow> Inl KeyError
      | Some r \<Rightarrow>
         (case map_of dictChromoso geneName of
            None \<Rightarrow> Inl KeyError
          | Some chr \<Rightarrow>
             (case write_gene_rows deletion_threshold duplication_threshold dictRatioParGene
                     dictChromoso (ligne + 1) genes of
                Inl e \<Rightarrow> Inl e
              | Inr rows \<Rightarrow>
                  Inr ((ligne, chr, geneName, r,
                        if pf_lt r deletion_threshold \<and> geneName \<notin> set listeGeneNonInterets
                        then cell_formatRED
                        else if pf_ge r duplication_threshold
                                \<and> geneName \<notin> set listeGeneNonInterets
                        then cell_formatBLUE
                        else no_format) # rows))))"

text \<open>The data of the scatter plot of one patient (lines 941--971).\<close>

record plot_data =
  ind1 :: "nat list"
  seq1y :: "pyfloat list"
  ind2 :: "nat list"
  seq2y :: "pyfloat list"
  ind3 :: "nat list"
  seq3y :: "pyfloat list"
  dictSticks :: "(string, nat) dict"

definition empty_plot :: plot_data where
  "empty_plot = \<lparr>ind1 = [], seq1y = [], ind2 = [], seq2y = [], ind3 = [], seq3y = [],
                  dictSticks = []\<rparr>"

fun gene_plot ::
  "rat \<Rightarrow> rat \<Rightarrow> (string, pyfloat) dict \<Rightarrow> nat \<Rightarrow> string list \<Rightarrow> plot_data
     \<Rightarrow> py_error + plot_data" where
  "gene_plot deletion_threshold duplication_threshold dictRatioParGene abcisse [] p = Inr p"
| "gene_plot deletion_threshold duplication_threshold dictRatioParGene abcisse (geneNom # genes) p =
     (case map_of dictRatioParGene geneNom of
        None \<Rightarrow> Inl KeyError
      | Some r \<Rightarrow>
          gene_plot deletion_threshold duplication_threshold dictRatioParGene (abcisse + 1) genes
            (if pf_lt r deletion_threshold \<and> geneNom \<notin> set listeGeneNonInterets then
               p\<lparr>seq1y := seq1y p @ [r], ind1 := ind1 p @ [abcisse],
                 dictSticks := dict_set (dictSticks p) geneNom abcisse\<rparr>
             else if pf_ge r duplication_threshold \<and> geneNom \<notin> set listeGeneNonInterets then
               p\<lparr>seq2y := seq2y p @ [r], ind2 := ind2 p @ [abcisse],
                 dictSticks := dict_set (dictSticks p) geneNom abcisse\<rparr>
             else if pf_gt r deletion_threshold \<and> pf_lt r duplication_threshold
                     \<and> geneNom \<notin> set listeGeneNonInterets then
               p\<lparr>seq3y := seq3y p @ [r], ind3 := ind3 p @ [abcisse]\<rparr>
             else p))"

record gene_output =
  gene_lines :: "gene_line list"
  gene_rows :: "gene_row list"
  gene_points :: plot_data

text \<open>One turn of the loop of lines 858--1019, on the patient's column of the ratio sheet.\<close>

definition gene_patient ::
  "float_ops \<Rightarrow> rat \<Rightarrow> rat \<Rightarrow> string list \<Rightarrow> fmr_row list \<Rightarrow> py_error + gene_output" where
  "gene_patient ops deletion_threshold duplication_threshold genes feui_FMR =
     (case aggregate_genes ops feui_FMR genes ([], []) of
        (dictRatioParGene, dictChromoso) \<Rightarrow>
     (case gene_deletion_lines deletion_threshold dictRatioParGene dictChromoso genes of
        Inl e \<Rightarrow> Inl e
      | Inr dels \<Rightarrow>
     (case gene_duplication_lines duplication_threshold dictRatioParGene dictChromoso genes of
        Inl e \<Rightarrow> Inl e
      | Inr dups \<Rightarrow>
     (case write_gene_rows deletion_threshold duplication_threshold dictRatioParGene dictChromoso
             1 genes of
        Inl e \<Rightarrow> Inl e
      | Inr rows \<Rightarrow>
     (case gene_plot deletion_threshold duplication_threshold dictRatioParGene 1 genes
             empty_plot of
        Inl e \<Rightarrow> Inl e
      | Inr p \<Rightarrow> Inr \<lparr>gene_lines = dels @ dups, gene_rows = rows, gene_points = p\<rparr>)))))"

section \<open>The run\<close>

fun map_err :: "('a \<Rightarrow> py_error + 'b) \<Rightarrow> 'a list \<Rightarrow> py_error + 'b list" where
  "map_err f [] = Inr []"
| "map_err f (x # xs) =
     (case f x of
        Inl e \<Rightarrow> Inl e
      | Inr y \<Rightarrow> (case map_err f xs of Inl e \<Rightarrow> Inl e | Inr ys \<Rightarrow> Inr (y # ys)))"

record reference_files =
  fichierListeOrdonnee :: "(string \<times> string \<times> string) list"
  fichierOrdonnee :: "(string \<times> string) list"
  fichierTemoin :: "(string \<times> rat) list"
  fichierNomGenes :: "string list"

record cnv_output =
  amp_outputs :: "amp_output list"
  gene_outputs :: "gene_output list"

text \<open>
  \<^verbatim>\<open>cnv_script_karim\<close> after the archive is unpacked: the coverage matrix of all
  patients, then the amplicon loop over all patients, then the gene loop over all
  patients. \<open>samples\<close> is the patients' sheets in the order of the file list.
\<close>

definition cnv_script_karim ::
  "float_ops \<Rightarrow> reference_files \<Rightarrow> (string \<times> string) list list \<Rightarrow> rat \<Rightarrow> rat \<Rightarrow> py_error + cnv_output" where
  "cnv_script_karim ops refdir samples duplication_threshold deletion_threshold =
     (case map_err (coverage_column (fichierListeOrdonnee refdir)) samples of
        Inl e \<Rightarrow> Inl e
      | Inr cols \<Rightarrow>
     (case map_err (amplicon_patient ops deletion_threshold duplication_threshold
                      (moy_Norm_TemoinsPorphy (fichierTemoin refdir)) (fichierOrdonnee refdir))
             cols of
        Inl e \<Rightarrow> Inl e
      | Inr amps \<Rightarrow>
     (case map_err (\<lambda>out. gene_patient ops deletion_threshold duplication_threshold
                             (listeNomGene (fichierNomGenes refdir))
                             (map (\<lambda>(chr, a, r, fmt). (chr, a, r)) (sheet_rows out)))
             amps of
        Inl e \<Rightarrow> Inl e
      | Inr gs \<Rightarrow> Inr \<lparr>amp_outputs = amps, gene_outputs = gs\<rparr>)))"

section \<open>The gene aggregate as the specification words it\<close>

text \<open>
  Not from the source: section 3 of the specification defines the gene aggregate as
  the mean over the amplicons that the panel's gene index (\<^verbatim>\<open>dictAmpliGene\<close>) maps to
  the gene. Used only to compare it with \<open>aggregate_genes\<close>.
\<close>

definition spec_GeneAggregate :: "float_ops \<Rightarrow> (string, string) dict \<Rightarrow> fmr_row list \<Rightarrow> string \<Rightarrow> pyfloat" where
  "spec_GeneAggregate ops dAmpliGene feui_FMR gene =
     np_mean ops (map (\<lambda>(chr, a, r). r)
       (filter (\<lambda>(chr, a, r). map_of dAmpliGene (replace_dot0 a) = Some gene) feui_FMR))"

section \<open>The floating-point operations without rounding error\<close>

text \<open>
  The operations on the rationals themselves: the quotient, the nearest multiple of
  1/1000 (a tie going to the even one, as \<^verbatim>\<open>round\<close> breaks it) and the sum divided by
  the number of values. Binary64 arithmetic returns the same value wherever that value
  and the sum are binary64 numbers. The program is evaluated below with these
  operations, on inputs where that is the case: every quotient, rounded ratio, sum and
  mean there is a multiple of 1/8 of small size.
\<close>

definition py_round3 :: "rat \<Rightarrow> rat" where
  "py_round3 x =
     (let y = x * 1000; f = \<lfloor>y\<rfloor>; r = y - of_int f
      in of_int (if r < 1 / 2 then f else if 1 / 2 < r then f + 1
                 else if even f then f else f + 1) / 1000)"

definition exact_ops :: float_ops where
  "exact_ops = \<lparr>truediv = (\<lambda>x y. x / y), round_3 = py_round3,
                  numpy_mean = (\<lambda>xs. sum_list xs / of_nat (length xs))\<rparr>"

section \<open>Dictionaries and sums\<close>

lemma map_of_dict_set: "map_of (dict_set d k v) = (map_of d)(k \<mapsto> v)"
  by (induction d) (auto simp: fun_eq_iff)

lemma keys_dict_set: "fst ` set (dict_set d k v) = insert k (fst ` set d)"
  by (induction d) (force split: if_splits)+

lemma distinct_dict_set: "distinct (map fst d) \<Longrightarrow> distinct (map fst (dict_set d k v))"
proof (induction d)
  case Nil
  then show ?case by simp
next
  case (Cons p d)
  obtain k' v' where p: "p = (k', v')" by (cases p)
  from Cons show ?case
    using keys_dict_set [of d k v] by (auto simp: p)
qed

lemma somme_foldl: "foldl (\<lambda>s (a, c). s + c) (z::int) col = z + sum_list (map snd col)"
  by (induction col arbitrary: z) (auto simp: case_prod_beta)

lemma somme_colonnePatientX_sum: "somme_colonnePatientX col = sum_list (map snd col)"
  by (simp add: somme_colonnePatientX_def somme_foldl)

section \<open>Amplicon stage: rows and anomaly lines\<close>

lemma write_amp_rows_fmt:
  "write_amp_rows d u dc dr items = Inr rows \<Longrightarrow> (chr, a, x, fmt) \<in> set rows \<Longrightarrow>
     map_of dr a = Some x \<and> map_of dc a = Some chr \<and> a \<in> set items \<and>
     fmt = (if x < d then cell_formatRED else if x \<ge> u then cell_formatBLUE else no_format)"
proof (induction items arbitrary: rows)
  case Nil
  then show ?case by simp
next
  case (Cons item items)
  then show ?case
    by (auto split: option.splits sum.splits)
qed

lemma deletion_lines_rows:
  "write_amp_rows d u dc dr items = Inr rows \<Longrightarrow>
   deletion_lines d dc dr items =
     Inr (map (\<lambda>(chr, a, x, fmt). (Deletion, chr, a, x))
            (filter (\<lambda>(chr, a, x, fmt). x < d) rows))"
proof (induction items arbitrary: rows)
  case Nil
  then show ?case by simp
next
  case (Cons item items)
  then show ?case
    by (auto split: option.splits sum.splits)
qed

lemma duplication_lines_rows:
  "write_amp_rows d u dc dr items = Inr rows \<Longrightarrow>
   duplication_lines u dc dr items =
     Inr (map (\<lambda>(chr, a, x, fmt). (Duplication, chr, a, x))
            (filter (\<lambda>(chr, a, x, fmt). x \<ge> u) rows))"
proof (induction items arbitrary: rows)
  case Nil
  then show ?case by simp
next
  case (Cons item items)
  then show ?case
    by (auto split: option.splits sum.splits)
qed

lemma amplicon_patient_Inr:
  assumes "amplicon_patient ops d u temoins ordonnee col = Inr out"
  shows "\<exists>norm dictRatio.
    moy_Norm_dict_patient ops col = Inr norm \<and>
    dictRatio_items ops temoins norm [] = Inr dictRatio \<and>
    write_amp_rows d u (dictChrm ordonnee) dictRatio (listeOrdonneeAmpli ordonnee)
      = Inr (sheet_rows out) \<and>
    anomaly_lines out =
      map (\<lambda>(chr, a, x, fmt). (Deletion, chr, a, x))
        (filter (\<lambda>(chr, a, x, fmt). x < d) (sheet_rows out)) @
      map (\<lambda>(chr, a, x, fmt). (Duplication, chr, a, x))
        (filter (\<lambda>(chr, a, x, fmt). x \<ge> u) (sheet_rows out))"
  using assms unfolding amplicon_patient_def
  by (auto split: sum.splits simp: deletion_lines_rows duplication_lines_rows)

section \<open>Amplicon stage: normalisation and ratio\<close>

lemma moy_Norm_rows_other:
  "moy_Norm_rows ops col rows dp = Inr nrm \<Longrightarrow> k \<notin> (\<lambda>(a, c). replace_dot0 a) ` set rows \<Longrightarrow>
     map_of nrm k = map_of dp k"
proof (induction rows arbitrary: dp)
  case Nil
  then show ?case by simp
next
  case (Cons row rows)
  obtain a c where row: "row = (a, c)" by (cases row)
  from Cons.prems have nz: "somme_colonnePatientX col - c \<noteq> 0"
    by (auto simp: row split: if_splits)
  with Cons.prems have
    "moy_Norm_rows ops col rows (dict_set dp (replace_dot0 a)
        (truediv ops (of_int c) (of_int (somme_colonnePatientX col - c)))) = Inr nrm"
    by (simp add: row)
  from Cons.IH [OF this] Cons.prems(2) show ?case
    by (auto simp: row map_of_dict_set)
qed

lemma moy_Norm_rows_member:
  "moy_Norm_rows ops col rows dp = Inr nrm \<Longrightarrow> distinct (map (\<lambda>(a, c). replace_dot0 a) rows) \<Longrightarrow>
   (a, c) \<in> set rows \<Longrightarrow>
     somme_colonnePatientX col - c \<noteq> 0 \<and>
     map_of nrm (replace_dot0 a) = Some (truediv ops (of_int c) (of_int (somme_colonnePatientX col - c)))"
proof (induction rows arbitrary: dp)
  case Nil
  then show ?case by simp
next
  case (Cons row rows)
  obtain a' c' where row: "row = (a', c')" by (cases row)
  from Cons.prems have nz: "somme_colonnePatientX col - c' \<noteq> 0"
    by (auto simp: row split: if_splits)
  with Cons.prems have rest:
    "moy_Norm_rows ops col rows (dict_set dp (replace_dot0 a')
        (truediv ops (of_int c') (of_int (somme_colonnePatientX col - c')))) = Inr nrm"
    by (simp add: row)
  show ?case
  proof (cases "(a, c) = (a', c')")
    case True
    from Cons.prems(2) have "replace_dot0 a' \<notin> (\<lambda>(a, c). replace_dot0 a) ` set rows"
      by (simp add: row)
    from moy_Norm_rows_other [OF rest this] nz True show ?thesis
      by (simp add: map_of_dict_set)
  next
    case False
    with Cons.prems(3) have "(a, c) \<in> set rows" by (auto simp: row)
    moreover from Cons.prems(2) have "distinct (map (\<lambda>(a, c). replace_dot0 a) rows)" by simp
    ultimately show ?thesis using Cons.IH [OF rest] by blast
  qed
qed

lemma moy_Norm_rows_distinct:
  "moy_Norm_rows ops col rows dp = Inr nrm \<Longrightarrow> distinct (map fst dp) \<Longrightarrow> distinct (map fst nrm)"
proof (induction rows arbitrary: dp)
  case Nil
  then show ?case by simp
next
  case (Cons row rows)
  obtain a c where row: "row = (a, c)" by (cases row)
  from Cons show ?case
    by (auto simp: row distinct_dict_set split: if_splits)
qed

lemma moy_Norm_rows_zero:
  "(a, c) \<in> set rows \<Longrightarrow> somme_colonnePatientX col - c = 0 \<Longrightarrow>
     moy_Norm_rows ops col rows dp = Inl ZeroDivisionError"
  by (induction rows arbitrary: dp) auto

lemma dictRatio_items_other:
  "dictRatio_items ops temoins items dr = Inr dictRatio \<Longrightarrow> k \<notin> fst ` set items \<Longrightarrow>
     map_of dictRatio k = map_of dr k"
proof (induction items arbitrary: dr)
  case Nil
  then show ?case by simp
next
  case (Cons item items)
  obtain kle val where item: "item = (kle, val)" by (cases item)
  from Cons show ?case
    by (auto simp: item map_of_dict_set split: option.splits if_splits)
qed

lemma dictRatio_items_member:
  "dictRatio_items ops temoins items dr = Inr dictRatio \<Longrightarrow> distinct (map fst items) \<Longrightarrow>
   (k, v) \<in> set items \<Longrightarrow>
     \<exists>b. map_of temoins k = Some b \<and> b \<noteq> 0 \<and> map_of dictRatio k = Some (round_3 ops (truediv ops v b))"
proof (induction items arbitrary: dr)
  case Nil
  then show ?case by simp
next
  case (Cons item items)
  obtain kle val where item: "item = (kle, val)" by (cases item)
  from Cons.prems(1) obtain t where t: "map_of temoins kle = Some t" "t \<noteq> 0"
    and rest: "dictRatio_items ops temoins items (dict_set dr kle (round_3 ops (truediv ops val t))) = Inr dictRatio"
    by (auto simp: item split: option.splits if_splits)
  show ?case
  proof (cases "(k, v) = (kle, val)")
    case True
    from Cons.prems(2) have "kle \<notin> fst ` set items" by (simp add: item)
    from dictRatio_items_other [OF rest this] t True show ?thesis
      by (simp add: map_of_dict_set)
  next
    case False
    with Cons.prems(3) have "(k, v) \<in> set items" by (auto simp: item)
    moreover from Cons.prems(2) have "distinct (map fst items)" by simp
    ultimately show ?thesis using Cons.IH [OF rest] by blast
  qed
qed

section \<open>The loop over the patients\<close>

lemma map_err_Inl: "x \<in> set xs \<Longrightarrow> f x = Inl e \<Longrightarrow> \<exists>e'. map_err f xs = Inl e'"
  by (induction xs) (auto split: sum.splits)

lemma map_err_Inr: "map_err f xs = Inr ys \<Longrightarrow> list_all2 (\<lambda>x y. f x = Inr y) xs ys"
  by (induction xs arbitrary: ys) (auto split: sum.splits)

section \<open>Gene stage: aggregation\<close>

lemma np_mean_NaN: "np_mean ops xs = NaN \<longleftrightarrow> xs = []"
  by (simp add: np_mean_def)

lemma foldl_dictChromoso:
  "map_of (foldl (\<lambda>d (chr, a, r). dict_set d gene chr) dc rows) g =
     (if rows = [] then map_of dc g
      else if g = gene then Some (fst (last rows)) else map_of dc g)"
proof (induction rows arbitrary: dc)
  case Nil
  then show ?case by simp
next
  case (Cons row rows)
  obtain chr a r where row: "row = (chr, a, r)" by (cases row)
  show ?case
    using Cons.IH [of "dict_set dc gene chr"] by (simp add: row map_of_dict_set)
qed

lemma aggregate_genes_ratio:
  "map_of (fst (aggregate_genes ops feui_FMR genes (dr, dc))) g =
     (if g \<in> set genes
      then Some (np_mean ops (map (\<lambda>(chr, a, r). r) (matching_rows g feui_FMR)))
      else map_of dr g)"
  by (induction genes arbitrary: dr dc) (auto simp: map_of_dict_set)

lemma aggregate_genes_chromo:
  "map_of (snd (aggregate_genes ops feui_FMR genes (dr, dc))) g =
     (if g \<in> set genes \<and> matching_rows g feui_FMR \<noteq> []
      then Some (fst (last (matching_rows g feui_FMR)))
      else map_of dc g)"
  by (induction genes arbitrary: dr dc) (auto simp: foldl_dictChromoso)

section \<open>Gene stage: anomaly lines, rows, plot\<close>

lemma gene_deletion_lines_line:
  "gene_deletion_lines d dr dc genes = Inr ls \<Longrightarrow> (k, chr, g, r) \<in> set ls \<Longrightarrow>
     k = Deletion \<and> g \<in> set genes \<and> g \<notin> set listeGeneNonInterets \<and>
     map_of dr g = Some r \<and> pf_lt r d \<and> map_of dc g = Some chr"
proof (induction genes arbitrary: ls)
  case Nil
  then show ?case by simp
next
  case (Cons geneName genes)
  then show ?case
    by (auto split: option.splits sum.splits if_splits)
qed

lemma gene_duplication_lines_line:
  "gene_duplication_lines u dr dc genes = Inr ls \<Longrightarrow> (k, chr, g, r) \<in> set ls \<Longrightarrow>
     k = Duplication \<and> g \<in> set genes \<and> g \<notin> set listeGeneNonInterets \<and>
     map_of dr g = Some r \<and> pf_ge r u \<and> map_of dc g = Some chr"
proof (induction genes arbitrary: ls)
  case Nil
  then show ?case by simp
next
  case (Cons geneName genes)
  then show ?case
    by (auto split: option.splits sum.splits if_splits)
qed

lemma pf_lt_Fin: "pf_lt r t \<Longrightarrow> \<exists>x. r = Fin x"
  by (cases r) auto

lemma pf_ge_Fin: "pf_ge r t \<Longrightarrow> \<exists>x. r = Fin x"
  by (cases r) auto

lemma gene_deletion_lines_total:
  assumes "\<And>g. g \<in> set genes \<Longrightarrow> map_of dr g \<noteq> None"
    and "\<And>g x. g \<in> set genes \<Longrightarrow> map_of dr g = Some (Fin x) \<Longrightarrow> map_of dc g \<noteq> None"
  shows "\<exists>ls. gene_deletion_lines d dr dc genes = Inr ls"
  using assms
proof (induction genes)
  case Nil
  then show ?case by simp
next
  case (Cons geneName genes)
  from Cons.IH Cons.prems obtain ls where ls: "gene_deletion_lines d dr dc genes = Inr ls"
    by auto
  from Cons.prems(1) [of geneName] obtain r where r: "map_of dr geneName = Some r" by auto
  show ?case
  proof (cases "pf_lt r d \<and> geneName \<notin> set listeGeneNonInterets")
    case True
    then obtain x where "r = Fin x" using pf_lt_Fin by blast
    with Cons.prems(2) [of geneName x] r obtain chr where "map_of dc geneName = Some chr"
      by auto
    with r ls True show ?thesis by simp
  next
    case False
    with r ls show ?thesis by auto
  qed
qed

lemma gene_duplication_lines_total:
  assumes "\<And>g. g \<in> set genes \<Longrightarrow> map_of dr g \<noteq> None"
    and "\<And>g x. g \<in> set genes \<Longrightarrow> map_of dr g = Some (Fin x) \<Longrightarrow> map_of dc g \<noteq> None"
  shows "\<exists>ls. gene_duplication_lines u dr dc genes = Inr ls"
  using assms
proof (induction genes)
  case Nil
  then show ?case by simp
next
  case (Cons geneName genes)
  from Cons.IH Cons.prems obtain ls where ls: "gene_duplication_lines u dr dc genes = Inr ls"
    by auto
  from Cons.prems(1) [of geneName] obtain r where r: "map_of dr geneName = Some r" by auto
  show ?case
  proof (cases "pf_ge r u \<and> geneName \<notin> set listeGeneNonInterets")
    case True
    then obtain x where "r = Fin x" using pf_ge_Fin by blast
    with Cons.prems(2) [of geneName x] r obtain chr where "map_of dc geneName = Some chr"
      by auto
    with r ls True show ?thesis by simp
  next
    case False
    with r ls show ?thesis by auto
  qed
qed

lemma write_gene_rows_row:
  "write_gene_rows d u dr dc ligne genes = Inr rows \<Longrightarrow> (n, chr, g, r, fmt) \<in> set rows \<Longrightarrow>
     g \<in> set genes \<and> map_of dr g = Some r \<and> map_of dc g = Some chr \<and>
     fmt = (if pf_lt r d \<and> g \<notin> set listeGeneNonInterets then cell_formatRED
            else if pf_ge r u \<and> g \<notin> set listeGeneNonInterets then cell_formatBLUE
            else no_format)"
proof (induction genes arbitrary: rows ligne)
  case Nil
  then show ?case by simp
next
  case (Cons geneName genes)
  then show ?case
    by (fastforce split: option.splits sum.splits)
qed

lemma write_gene_rows_genes:
  "write_gene_rows d u dr dc ligne genes = Inr rows \<Longrightarrow>
     map (\<lambda>(n, chr, g, r, fmt). g) rows = genes"
proof (induction genes arbitrary: rows ligne)
  case Nil
  then show ?case by simp
next
  case (Cons geneName genes)
  from Cons.prems obtain r chr rest where
    rest: "write_gene_rows d u dr dc (ligne + 1) genes = Inr rest"
    and rows: "rows = (ligne, chr, geneName, r,
                 if pf_lt r d \<and> geneName \<notin> set listeGeneNonInterets then cell_formatRED
                 else if pf_ge r u \<and> geneName \<notin> set listeGeneNonInterets then cell_formatBLUE
                 else no_format) # rest"
    by (auto split: option.splits sum.splits)
  from Cons.IH [OF rest] show ?case
    by (simp add: rows)
qed

lemma write_gene_rows_Inl:
  assumes "\<And>g. g \<in> set genes \<Longrightarrow> map_of dr g \<noteq> None"
  shows "write_gene_rows d u dr dc ligne genes = Inl e \<longleftrightarrow>
           e = KeyError \<and> (\<exists>g \<in> set genes. map_of dc g = None)"
  using assms
proof (induction genes arbitrary: ligne)
  case Nil
  then show ?case by simp
next
  case (Cons geneName genes)
  from Cons.prems [of geneName] obtain r where r: "map_of dr geneName = Some r" by auto
  have IH: "write_gene_rows d u dr dc (ligne + 1) genes = Inl e \<longleftrightarrow>
           e = KeyError \<and> (\<exists>g \<in> set genes. map_of dc g = None)"
    by (rule Cons.IH) (simp add: Cons.prems)
  show ?case
    using r IH by (auto split: option.splits sum.splits)
qed

lemma gene_plot_total:
  assumes "\<And>g. g \<in> set genes \<Longrightarrow> map_of dr g \<noteq> None"
  shows "\<exists>p'. gene_plot d u dr abcisse genes p = Inr p'"
  using assms
proof (induction genes arbitrary: abcisse p)
  case Nil
  then show ?case by simp
next
  case (Cons geneNom genes)
  from Cons.prems [of geneNom] obtain r where r: "map_of dr geneNom = Some r" by auto
  have "\<exists>p'. gene_plot d u dr (abcisse + 1) genes q = Inr p'" for q
    by (rule Cons.IH) (simp add: Cons.prems)
  with r show ?case by simp
qed

section \<open>Gene stage: one patient\<close>

lemma gene_patient_Inr:
  assumes "gene_patient ops d u genes feui_FMR = Inr out"
  shows "\<exists>dr dc dels dups.
    aggregate_genes ops feui_FMR genes ([], []) = (dr, dc) \<and>
    gene_deletion_lines d dr dc genes = Inr dels \<and>
    gene_duplication_lines u dr dc genes = Inr dups \<and>
    write_gene_rows d u dr dc 1 genes = Inr (gene_rows out) \<and>
    gene_plot d u dr 1 genes empty_plot = Inr (gene_points out) \<and>
    gene_lines out = dels @ dups"
  using assms unfolding gene_patient_def
  by (auto split: prod.splits sum.splits)

lemma aggregate_genes_dr:
  assumes "aggregate_genes ops feui_FMR genes ([], []) = (dr, dc)" and "g \<in> set genes"
  shows "map_of dr g = Some (np_mean ops (map (\<lambda>(chr, a, r). r) (matching_rows g feui_FMR)))"
  using aggregate_genes_ratio [of ops feui_FMR genes "[]" "[]" g] assms by simp

lemma aggregate_genes_dc:
  assumes "aggregate_genes ops feui_FMR genes ([], []) = (dr, dc)" and "g \<in> set genes"
  shows "map_of dc g = (if matching_rows g feui_FMR = [] then None
                        else Some (fst (last (matching_rows g feui_FMR))))"
  using aggregate_genes_chromo [of ops feui_FMR genes "[]" "[]" g] assms by simp

lemma gene_patient_Inl:
  "gene_patient ops d u genes feui_FMR = Inl e \<longleftrightarrow>
     e = KeyError \<and> (\<exists>g \<in> set genes. matching_rows g feui_FMR = [])"
proof -
  obtain dr dc where agg: "aggregate_genes ops feui_FMR genes ([], []) = (dr, dc)"
    by (cases "aggregate_genes ops feui_FMR genes ([], [])")
  have dr: "map_of dr g \<noteq> None" if "g \<in> set genes" for g
    using aggregate_genes_dr [OF agg that] by simp
  have dc: "map_of dc g \<noteq> None" if "g \<in> set genes" "map_of dr g = Some (Fin x)" for g x
  proof -
    from that aggregate_genes_dr [OF agg that(1)]
    have "matching_rows g feui_FMR \<noteq> []" by (auto simp: np_mean_def)
    with aggregate_genes_dc [OF agg that(1)] show ?thesis by simp
  qed
  from gene_deletion_lines_total [of genes dr dc d] dr dc
  obtain dels where dels: "gene_deletion_lines d dr dc genes = Inr dels" by blast
  from gene_duplication_lines_total [of genes dr dc u] dr dc
  obtain dups where dups: "gene_duplication_lines u dr dc genes = Inr dups" by blast
  from gene_plot_total [of genes dr d u 1 empty_plot] dr
  obtain p where p: "gene_plot d u dr 1 genes empty_plot = Inr p" by blast
  have w: "write_gene_rows d u dr dc 1 genes = Inl e \<longleftrightarrow>
             e = KeyError \<and> (\<exists>g \<in> set genes. map_of dc g = None)"
    by (rule write_gene_rows_Inl) (rule dr)
  have "(\<exists>g \<in> set genes. map_of dc g = None) \<longleftrightarrow>
          (\<exists>g \<in> set genes. matching_rows g feui_FMR = [])"
    using aggregate_genes_dc [OF agg] by auto
  with w have w': "write_gene_rows d u dr dc 1 genes = Inl e \<longleftrightarrow>
             e = KeyError \<and> (\<exists>g \<in> set genes. matching_rows g feui_FMR = [])"
    by simp
  show ?thesis
    unfolding gene_patient_def using agg dels dups p w'
    by (auto split: sum.splits)
qed

section \<open>Substrings and plot groups\<close>

lemma startswith_iff: "startswith s g \<longleftrightarrow> (\<exists>t. s = g @ t)"
  by (induction s g rule: startswith.induct) auto

lemma str_contains_iff: "str_contains s g \<longleftrightarrow> (\<exists>p t. s = p @ g @ t)"
proof (induction s)
  case Nil
  then show ?case by simp
next
  case (Cons c s)
  show ?case
  proof
    assume "str_contains (c # s) g"
    then consider "startswith (c # s) g" | "str_contains s g" by auto
    then show "\<exists>p t. c # s = p @ g @ t"
    proof cases
      case 1
      then obtain t where "c # s = g @ t" using startswith_iff by blast
      then have "c # s = [] @ g @ t" by simp
      then show ?thesis by blast
    next
      case 2
      with Cons.IH obtain p t where "s = p @ g @ t" by blast
      then have "c # s = (c # p) @ g @ t" by simp
      then show ?thesis by blast
    qed
  next
    assume "\<exists>p t. c # s = p @ g @ t"
    then obtain p t where pt: "c # s = p @ g @ t" by blast
    show "str_contains (c # s) g"
    proof (cases p)
      case Nil
      with pt have "startswith (c # s) g" using startswith_iff by auto
      then show ?thesis by simp
    next
      case (Cons c' p')
      with pt have "s = p' @ g @ t" by simp
      with Cons.IH have "str_contains s g" by blast
      then show ?thesis by simp
    qed
  qed
qed




section \<open>Coverage matrix\<close>

lemma py_digits_rest_no_space:
  "py_digits_rest acc s = Some n \<Longrightarrow> c \<in> set s \<Longrightarrow> is_digit c \<or> c = CHR ''_''"
  by (induction acc s rule: py_digits_rest.induct) (auto split: if_splits)

lemma py_digits_no_space:
  assumes "py_digits s = Some n" and "c \<in> set s"
  shows "\<not> is_space c"
proof -
  from assms have "is_digit c \<or> c = CHR ''_''"
    by (cases s) (auto simp: py_digits_def split: if_splits dest: py_digits_rest_no_space)
  then show ?thesis
    by (auto simp: is_digit_def is_space_def)
qed

lemma py_strip_id:
  assumes "s \<noteq> []" and "\<not> is_space (hd s)" and "\<not> is_space (last s)"
  shows "py_strip s = s"
proof -
  from assms have a: "dropWhile is_space s = s"
    by (cases s) auto
  from assms have "rev s \<noteq> []" and "\<not> is_space (hd (rev s))"
    by (simp_all add: hd_rev)
  then have "dropWhile is_space (rev s) = rev s"
    by (cases "rev s") auto
  with a show ?thesis by (simp add: py_strip_def)
qed

lemma py_int_negative:
  assumes "py_digits t = Some n"
  shows "py_int (CHR ''-'' # t) = Inr (- int n)"
proof -
  from assms have ne: "t \<noteq> []" by (auto simp: py_digits_def)
  then have "last (CHR ''-'' # t) \<in> set t" by simp
  with assms have "\<not> is_space (last (CHR ''-'' # t))"
    using py_digits_no_space by blast
  moreover have "\<not> is_space (hd (CHR ''-'' # t))"
    by (simp add: is_space_def)
  ultimately have "py_strip (CHR ''-'' # t) = CHR ''-'' # t"
    by (intro py_strip_id) simp_all
  with assms show ?thesis by (simp add: py_int_def)
qed

lemma py_int_Inl: "py_int s = Inl e \<Longrightarrow> e = ValueError"
  by (auto simp: py_int_def split: list.splits option.splits if_splits)

lemma dictAmpliGene_keys:
  "fst ` set (foldl (\<lambda>d (chr, a, g). dict_set d (replace_dot0 a) g) d0 panel)
     = fst ` set d0 \<union> (\<lambda>(chr, a, g). replace_dot0 a) ` set panel"
proof (induction panel arbitrary: d0)
  case Nil
  then show ?case by simp
next
  case (Cons row panel)
  obtain chr a g where row: "row = (chr, a, g)" by (cases row)
  show ?case
    using Cons.IH [of "dict_set d0 (replace_dot0 a) g"]
    by (simp add: row keys_dict_set)
qed

lemma dictAmpliGene_defined:
  assumes "a \<in> set (listOrdonneeAMP panel)"
  shows "map_of (dictAmpliGene panel) a \<noteq> None"
proof -
  from assms have "a \<in> fst ` set (dictAmpliGene panel)"
    unfolding dictAmpliGene_def listOrdonneeAMP_def dictAmpliGene_keys by simp
  then show ?thesis
    by (simp add: map_of_eq_None_iff)
qed

lemma coverage_rows_row:
  "coverage_rows dg dp amps = Inr rows \<Longrightarrow>
     map (\<lambda>(g, a, n). a) rows = amps \<and>
     (\<forall>g a n. (g, a, n) \<in> set rows \<longrightarrow>
        map_of dg a = Some g \<and> (\<exists>txt. map_of dp a = Some txt \<and> py_int txt = Inr n))"
proof (induction amps arbitrary: rows)
  case Nil
  then show ?case by simp
next
  case (Cons ampli_LO rest)
  then show ?case
    by (auto split: option.splits sum.splits)
qed

lemma coverage_rows_Inr_iff:
  "(\<exists>rows. coverage_rows dg dp amps = Inr rows) \<longleftrightarrow>
     (\<forall>a \<in> set amps. map_of dg a \<noteq> None \<and>
        (\<exists>txt n. map_of dp a = Some txt \<and> py_int txt = Inr n))"
proof (induction amps)
  case Nil
  then show ?case by simp
next
  case (Cons ampli_LO rest)
  show ?case
  proof
    assume "\<exists>rows. coverage_rows dg dp (ampli_LO # rest) = Inr rows"
    then obtain rows where r: "coverage_rows dg dp (ampli_LO # rest) = Inr rows" by blast
    then obtain g tx n rows' where "map_of dg ampli_LO = Some g"
      and "map_of dp ampli_LO = Some tx" and "py_int tx = Inr n"
      and "coverage_rows dg dp rest = Inr rows'"
      by (auto split: option.splits sum.splits)
    with Cons.IH show "\<forall>a \<in> set (ampli_LO # rest). map_of dg a \<noteq> None \<and>
        (\<exists>txt n. map_of dp a = Some txt \<and> py_int txt = Inr n)"
      by auto
  next
    assume a: "\<forall>a \<in> set (ampli_LO # rest). map_of dg a \<noteq> None \<and>
        (\<exists>txt n. map_of dp a = Some txt \<and> py_int txt = Inr n)"
    then obtain g tx n where "map_of dg ampli_LO = Some g"
      and "map_of dp ampli_LO = Some tx" and "py_int tx = Inr n"
      by auto
    moreover from a Cons.IH obtain rows' where "coverage_rows dg dp rest = Inr rows'"
      by auto
    ultimately show "\<exists>rows. coverage_rows dg dp (ampli_LO # rest) = Inr rows"
      by simp
  qed
qed

lemma coverage_rows_Inl:
  "coverage_rows dg dp amps = Inl e \<Longrightarrow> e = KeyError \<or> e = ValueError"
proof (induction amps)
  case Nil
  then show ?case by simp
next
  case (Cons ampli_LO rest)
  then show ?case
    by (auto split: option.splits sum.splits dest: py_int_Inl)
qed

section \<open>What the thresholds can change\<close>

lemma write_amp_rows_closed:
  "write_amp_rows d u dc dr items =
     (if \<forall>item \<in> set items. map_of dr item \<noteq> None \<and> map_of dc item \<noteq> None
      then Inr (map (\<lambda>item. (the (map_of dc item), item, the (map_of dr item),
                      if the (map_of dr item) < d then cell_formatRED
                      else if the (map_of dr item) \<ge> u then cell_formatBLUE
                      else no_format)) items)
      else Inl KeyError)"
  by (induction items) (auto split: option.splits sum.splits)

lemma amplicon_patient_Inr_thresholds:
  assumes "amplicon_patient ops d u temoins ordonnee col = Inr out"
  shows "\<exists>out'. amplicon_patient ops d' u' temoins ordonnee col = Inr out' \<and>
           map (\<lambda>(chr, a, r, fmt). (chr, a, r)) (sheet_rows out')
             = map (\<lambda>(chr, a, r, fmt). (chr, a, r)) (sheet_rows out)"
proof -
  from amplicon_patient_Inr [OF assms] obtain nrm dictRatio where
    n: "moy_Norm_dict_patient ops col = Inr nrm"
    and r: "dictRatio_items ops temoins nrm [] = Inr dictRatio"
    and w: "write_amp_rows d u (dictChrm ordonnee) dictRatio (listeOrdonneeAmpli ordonnee)
          = Inr (sheet_rows out)"
    by blast
  let ?dc = "dictChrm ordonnee" and ?items = "listeOrdonneeAmpli ordonnee"
  from w have ok: "\<forall>item \<in> set ?items. map_of dictRatio item \<noteq> None \<and> map_of ?dc item \<noteq> None"
    by (simp add: write_amp_rows_closed split: if_splits)
  with w have eq: "sheet_rows out
      = map (\<lambda>item. (the (map_of ?dc item), item, the (map_of dictRatio item),
                      if the (map_of dictRatio item) < d then cell_formatRED
                      else if the (map_of dictRatio item) \<ge> u then cell_formatBLUE
                      else no_format)) ?items"
    by (simp add: write_amp_rows_closed)
  have rows: "map (\<lambda>(chr, a, r, fmt). (chr, a, r)) (sheet_rows out)
      = map (\<lambda>item. (the (map_of ?dc item), item, the (map_of dictRatio item))) ?items"
    unfolding eq by simp
  from ok obtain rows' where w': "write_amp_rows d' u' ?dc dictRatio ?items = Inr rows'"
    and rows': "map (\<lambda>(chr, a, r, fmt). (chr, a, r)) rows'
      = map (\<lambda>item. (the (map_of ?dc item), item, the (map_of dictRatio item))) ?items"
    by (auto simp: write_amp_rows_closed)
  from n r w' have "amplicon_patient ops d' u' temoins ordonnee col
      = Inr \<lparr>sheet_rows = rows',
             anomaly_lines =
               map (\<lambda>(chr, a, x, fmt). (Deletion, chr, a, x))
                 (filter (\<lambda>(chr, a, x, fmt). x < d') rows') @
               map (\<lambda>(chr, a, x, fmt). (Duplication, chr, a, x))
                 (filter (\<lambda>(chr, a, x, fmt). x \<ge> u') rows')\<rparr>"
    by (simp add: amplicon_patient_def deletion_lines_rows [OF w'] duplication_lines_rows [OF w'])
  with rows rows' show ?thesis by simp
qed

lemma amplicon_patient_Inl_thresholds:
  assumes "amplicon_patient ops d u temoins ordonnee col = Inl e"
  shows "amplicon_patient ops d' u' temoins ordonnee col = Inl e"
proof (cases "amplicon_patient ops d' u' temoins ordonnee col")
  case (Inl e')
  show ?thesis
  proof (cases "moy_Norm_dict_patient ops col")
    case n: (Inl e1)
    with assms Inl show ?thesis by (simp add: amplicon_patient_def)
  next
    case n: (Inr nrm)
    show ?thesis
    proof (cases "dictRatio_items ops temoins nrm []")
      case r: (Inl e2)
      with n assms Inl show ?thesis by (simp add: amplicon_patient_def)
    next
      case r: (Inr dictRatio)
      let ?dc = "dictChrm ordonnee" and ?items = "listeOrdonneeAmpli ordonnee"
      show ?thesis
      proof (cases "write_amp_rows d u ?dc dictRatio ?items")
        case w: (Inl e3)
        then have e3: "e3 = KeyError"
          and "\<not> (\<forall>item \<in> set ?items. map_of dictRatio item \<noteq> None \<and> map_of ?dc item \<noteq> None)"
          by (auto simp: write_amp_rows_closed split: if_splits)
        then have "write_amp_rows d' u' ?dc dictRatio ?items = Inl KeyError"
          by (simp add: write_amp_rows_closed)
        with n r w e3 assms show ?thesis by (simp add: amplicon_patient_def)
      next
        case w: (Inr rows)
        from n r w have "amplicon_patient ops d u temoins ordonnee col
            = Inr \<lparr>sheet_rows = rows,
             anomaly_lines =
               map (\<lambda>(chr, a, x, fmt). (Deletion, chr, a, x))
                 (filter (\<lambda>(chr, a, x, fmt). x < d) rows) @
               map (\<lambda>(chr, a, x, fmt). (Duplication, chr, a, x))
                 (filter (\<lambda>(chr, a, x, fmt). x \<ge> u) rows)\<rparr>"
          by (simp add: amplicon_patient_def deletion_lines_rows [OF w]
                duplication_lines_rows [OF w])
        with assms show ?thesis by simp
      qed
    qed
  qed
next
  case (Inr out')
  from amplicon_patient_Inr_thresholds [OF this, of d u] assms show ?thesis by auto
qed

lemma map_err_Inl_rel:
  "list_all2 (\<lambda>x y. \<forall>e. (f x = Inl e) = (g y = Inl e)) xs ys \<Longrightarrow>
     (map_err f xs = Inl e) = (map_err g ys = Inl e)"
proof (induction xs ys rule: list_all2_induct)
  case Nil
  then show ?case by simp
next
  case (Cons x xs y ys)
  show ?case
  proof (cases "f x")
    case (Inl e')
    from Cons.hyps(1) have "(f x = Inl e') = (g y = Inl e')" by (rule spec)
    with Inl have "g y = Inl e'" by simp
    with Inl show ?thesis by simp
  next
    case (Inr z)
    with Cons.hyps(1) obtain z' where "g y = Inr z'"
      by (cases "g y") auto
    with Inr Cons.IH show ?thesis by (auto split: sum.splits)
  qed
qed

lemma map_err_Inr_rel:
  assumes "map_err f xs = Inr ys"
    and "\<And>x y. x \<in> set xs \<Longrightarrow> f x = Inr y \<Longrightarrow> \<exists>y'. g x = Inr y' \<and> R y y'"
  shows "\<exists>ys'. map_err g xs = Inr ys' \<and> list_all2 R ys ys'"
  using assms
proof (induction xs arbitrary: ys)
  case Nil
  then show ?case by simp
next
  case (Cons x xs)
  from Cons.prems(1) obtain y ys0 where y: "f x = Inr y" and ys0: "map_err f xs = Inr ys0"
    and ys: "ys = y # ys0"
    by (auto split: sum.splits)
  from Cons.prems(2) [of x y] y obtain y' where y': "g x = Inr y'" "R y y'" by auto
  from Cons.IH [OF ys0] Cons.prems(2) obtain ys' where
    "map_err g xs = Inr ys'" "list_all2 R ys0 ys'"
    by auto
  with y' ys show ?case by simp
qed

lemma cnv_script_karim_Inl_thresholds:
  assumes "cnv_script_karim ops refdir samples u d = Inl e"
  shows "cnv_script_karim ops refdir samples u' d' = Inl e"
proof (cases "map_err (coverage_column (fichierListeOrdonnee refdir)) samples")
  case (Inl e0)
  with assms show ?thesis by (simp add: cnv_script_karim_def)
next
  case cols: (Inr cols)
  let ?T = "moy_Norm_TemoinsPorphy (fichierTemoin refdir)" and ?O = "fichierOrdonnee refdir"
  let ?genes = "listeNomGene (fichierNomGenes refdir)"
  let ?G = "\<lambda>d u out. gene_patient ops d u ?genes
                (map (\<lambda>(chr, a, r, fmt). (chr, a, r)) (sheet_rows out))"
  show ?thesis
  proof (cases "map_err (amplicon_patient ops d u ?T ?O) cols")
    case (Inl e1)
    with cols assms have e1: "e1 = e" by (simp add: cnv_script_karim_def)
    have "list_all2 (\<lambda>x y. \<forall>e. (amplicon_patient ops d u ?T ?O x = Inl e)
                              = (amplicon_patient ops d' u' ?T ?O y = Inl e)) cols cols"
      by (auto simp: list_all2_same dest: amplicon_patient_Inl_thresholds)
    from map_err_Inl_rel [OF this, of e] Inl e1
    have "map_err (amplicon_patient ops d' u' ?T ?O) cols = Inl e" by simp
    with cols show ?thesis by (simp add: cnv_script_karim_def)
  next
    case amps: (Inr amps)
    with cols assms have g: "map_err (?G d u) amps = Inl e"
      by (simp add: cnv_script_karim_def split: sum.splits)
    let ?R = "\<lambda>out out'. map (\<lambda>(chr, a, r, fmt). (chr, a, r)) (sheet_rows out')
                          = map (\<lambda>(chr, a, r, fmt). (chr, a, r)) (sheet_rows out)"
    have "\<exists>amps'. map_err (amplicon_patient ops d' u' ?T ?O) cols = Inr amps' \<and>
            list_all2 ?R amps amps'"
      by (rule map_err_Inr_rel [OF amps]) (rule amplicon_patient_Inr_thresholds)
    then obtain amps' where amps': "map_err (amplicon_patient ops d' u' ?T ?O) cols = Inr amps'"
      and rel: "list_all2 ?R amps amps'"
      by blast
    have "list_all2 (\<lambda>x y. \<forall>e. (?G d u x = Inl e) = (?G d' u' y = Inl e)) amps amps'"
      by (rule list_all2_mono [OF rel]) (simp add: gene_patient_Inl)
    from map_err_Inl_rel [OF this, of e] g
    have "map_err (?G d' u') amps' = Inl e" by simp
    with cols amps' show ?thesis by (simp add: cnv_script_karim_def)
  qed
qed

section \<open>Ratio against the control baseline\<close>

lemma dictRatio_items_Inr_iff:
  "(\<exists>dictRatio. dictRatio_items ops temoins items dr = Inr dictRatio) \<longleftrightarrow>
     (\<forall>k \<in> fst ` set items. \<exists>b. map_of temoins k = Some b \<and> b \<noteq> 0)"
proof (induction items arbitrary: dr)
  case Nil
  then show ?case by simp
next
  case (Cons item items)
  obtain kle val where item: "item = (kle, val)" by (cases item)
  show ?case
  proof (cases "map_of temoins kle")
    case None
    then show ?thesis by (auto simp: item)
  next
    case (Some t)
    show ?thesis
    proof (cases "t = 0")
      case True
      with Some show ?thesis by (auto simp: item)
    next
      case False
      with Some Cons.IH [of "dict_set dr kle (round_3 ops (truediv ops val t))"] show ?thesis
        by (simp add: item)
    qed
  qed
qed

lemma dictRatio_items_Inl:
  "dictRatio_items ops temoins items dr = Inl e \<Longrightarrow>
     (e = KeyError \<and> (\<exists>k \<in> fst ` set items. map_of temoins k = None)) \<or>
     (e = ZeroDivisionError \<and> (\<exists>k \<in> fst ` set items. map_of temoins k = Some 0))"
proof (induction items arbitrary: dr)
  case Nil
  then show ?case by simp
next
  case (Cons item items)
  obtain kle val where item: "item = (kle, val)" by (cases item)
  show ?case
  proof (cases "map_of temoins kle")
    case None
    with Cons.prems show ?thesis by (auto simp: item)
  next
    case (Some t)
    show ?thesis
    proof (cases "t = 0")
      case True
      with Some Cons.prems show ?thesis by (auto simp: item)
    next
      case False
      with Some Cons.prems
      have "dictRatio_items ops temoins items (dict_set dr kle (round_3 ops (truediv ops val t))) = Inl e"
        by (simp add: item)
      from Cons.IH [OF this] show ?thesis by (auto simp: item)
    qed
  qed
qed

section \<open>The specification against the code\<close>

text \<open>
  C1. Classification of an amplicon record is the threshold rule with asymmetric
  boundaries. For thresholds \<open>d < u\<close> and every row (chromosome, amplicon, ratio \<open>x\<close>,
  format) written to the ratio sheet of a patient: the row is red (deletion) iff
  \<open>x < d\<close>, blue (duplication) iff \<open>x \<ge> u\<close>, unformatted (normal) otherwise; the
  amplicon is listed as a deletion in the anomaly text iff \<open>x < d\<close> and as a
  duplication iff \<open>x \<ge> u\<close>; and the anomaly text is exactly the deletions of the
  sheet followed by its duplications. So \<open>x = d\<close> is no deletion and \<open>x = u\<close> is a
  duplication.
\<close>

theorem amplicon_classification_threshold_rule:
  assumes "d < u"
    and "amplicon_patient ops d u temoins ordonnee col = Inr out"
    and "(chr, a, x, fmt) \<in> set (sheet_rows out)"
  shows "(fmt = cell_formatRED \<longleftrightarrow> x < d) \<and>
         (fmt = cell_formatBLUE \<longleftrightarrow> x \<ge> u) \<and>
         (fmt = no_format \<longleftrightarrow> \<not> x < d \<and> \<not> x \<ge> u) \<and>
         ((Deletion, chr, a, x) \<in> set (anomaly_lines out) \<longleftrightarrow> x < d) \<and>
         ((Duplication, chr, a, x) \<in> set (anomaly_lines out) \<longleftrightarrow> x \<ge> u) \<and>
         anomaly_lines out =
           map (\<lambda>(chr, a, x, fmt). (Deletion, chr, a, x))
             (filter (\<lambda>(chr, a, x, fmt). x < d) (sheet_rows out)) @
           map (\<lambda>(chr, a, x, fmt). (Duplication, chr, a, x))
             (filter (\<lambda>(chr, a, x, fmt). x \<ge> u) (sheet_rows out))"
proof -
  from amplicon_patient_Inr [OF assms(2)] obtain dictRatio where
    w: "write_amp_rows d u (dictChrm ordonnee) dictRatio (listeOrdonneeAmpli ordonnee)
          = Inr (sheet_rows out)"
    and an: "anomaly_lines out =
       map (\<lambda>(chr, a, x, fmt). (Deletion, chr, a, x))
         (filter (\<lambda>(chr, a, x, fmt). x < d) (sheet_rows out)) @
       map (\<lambda>(chr, a, x, fmt). (Duplication, chr, a, x))
         (filter (\<lambda>(chr, a, x, fmt). x \<ge> u) (sheet_rows out))"
    by blast
  from write_amp_rows_fmt [OF w assms(3)]
  have f: "fmt = (if x < d then cell_formatRED else if x \<ge> u then cell_formatBLUE else no_format)"
    by simp
  have del: "(Deletion, chr, a, x) \<in> set (anomaly_lines out) \<longleftrightarrow> x < d"
    unfolding an using assms(3) by (auto simp: image_iff)
  have dup: "(Duplication, chr, a, x) \<in> set (anomaly_lines out) \<longleftrightarrow> x \<ge> u"
    unfolding an using assms(3) by (auto simp: image_iff)
  from f assms(1) del dup an show ?thesis by auto
qed

theorem amplicon_classification_threshold_rule_witness:
  "(1 / 2 :: rat) < 7 / 4 \<and>
   amplicon_patient exact_ops (1 / 2) (7 / 4) (moy_Norm_TemoinsPorphy [(''A1'', 1), (''A2'', 2)])
       [(''1'', ''A1''), (''1'', ''A2'')] [(''A1'', 20), (''A2'', 10)]
     = Inr \<lparr>sheet_rows = [(''1'', ''A1'', 2, cell_formatBLUE),
                           (''1'', ''A2'', 1 / 4, cell_formatRED)],
            anomaly_lines = [(Deletion, ''1'', ''A2'', 1 / 4),
                             (Duplication, ''1'', ''A1'', 2)]\<rparr> \<and>
   ((cell_formatRED = cell_formatRED) \<longleftrightarrow> (1 / 4 :: rat) < 1 / 2) \<and>
   ((cell_formatRED = no_format) \<longleftrightarrow> \<not> (1 / 4 :: rat) < 1 / 2 \<and> \<not> (1 / 4 :: rat) \<ge> 7 / 4)"
proof -
  let ?out = "\<lparr>sheet_rows = [(''1'', ''A1'', 2 :: rat, cell_formatBLUE),
                              (''1'', ''A2'', 1 / 4, cell_formatRED)],
               anomaly_lines = [(Deletion, ''1'', ''A2'', 1 / 4 :: rat),
                                (Duplication, ''1'', ''A1'', 2)]\<rparr>"
  have h1: "(1 / 2 :: rat) < 7 / 4" by simp
  have h2: "amplicon_patient exact_ops (1 / 2) (7 / 4)
              (moy_Norm_TemoinsPorphy [(''A1'', 1), (''A2'', 2)])
              [(''1'', ''A1''), (''1'', ''A2'')] [(''A1'', 20), (''A2'', 10)] = Inr ?out"
    by code_simp
  have h3: "(''1'', ''A2'', 1 / 4 :: rat, cell_formatRED) \<in> set (sheet_rows ?out)"
    by simp
  from amplicon_classification_threshold_rule [OF h1 h2 h3] h2 show ?thesis
    by simp
qed

text \<open>
  C3. For a patient's column of the coverage matrix whose region ids are distinct and
  every row (amplicon \<open>a\<close>, read count \<open>c\<close>) of it, in a turn of the amplicon loop
  that completes: the total \<^verbatim>\<open>somme_colonnePatientX\<close> is the sum of all read counts
  of the column, the same for every row; the normalised value stored for \<open>a\<close> is
  the float quotient \<^verbatim>\<open>c / (total - c)\<close>; the ratio stored for \<open>a\<close>, and written to the
  ratio sheet in every row of \<open>a\<close>, is \<^verbatim>\<open>round(normalised / baseline[a], 3)\<close>, the
  division and the rounding being those of Python's floats.
\<close>

theorem normalised_value_and_ratio:
  assumes "distinct (map (\<lambda>(a, c). replace_dot0 a) col)"
    and "(a, c) \<in> set col"
    and "amplicon_patient ops d u temoins ordonnee col = Inr out"
  shows "\<exists>nrm dictRatio b.
           moy_Norm_dict_patient ops col = Inr nrm \<and>
           dictRatio_items ops temoins nrm [] = Inr dictRatio \<and>
           somme_colonnePatientX col = sum_list (map snd col) \<and>
           sum_list (map snd col) - c \<noteq> 0 \<and>
           map_of nrm (replace_dot0 a)
             = Some (truediv ops (of_int c) (of_int (sum_list (map snd col) - c))) \<and>
           map_of temoins (replace_dot0 a) = Some b \<and> b \<noteq> 0 \<and>
           map_of dictRatio (replace_dot0 a)
             = Some (round_3 ops (truediv ops
                  (truediv ops (of_int c) (of_int (sum_list (map snd col) - c))) b)) \<and>
           (\<forall>chr x fmt. (chr, replace_dot0 a, x, fmt) \<in> set (sheet_rows out) \<longrightarrow>
              x = round_3 ops (truediv ops
                    (truediv ops (of_int c) (of_int (sum_list (map snd col) - c))) b))"
proof -
  from amplicon_patient_Inr [OF assms(3)] obtain nrm dictRatio where
    n: "moy_Norm_dict_patient ops col = Inr nrm"
    and r: "dictRatio_items ops temoins nrm [] = Inr dictRatio"
    and w: "write_amp_rows d u (dictChrm ordonnee) dictRatio (listeOrdonneeAmpli ordonnee)
          = Inr (sheet_rows out)"
    by blast
  let ?v = "truediv ops (of_int c) (of_int (sum_list (map snd col) - c))"
  from n have n': "moy_Norm_rows ops col col [] = Inr nrm"
    by (simp add: moy_Norm_dict_patient_def)
  from moy_Norm_rows_member [OF n' assms(1) assms(2)]
  have nz: "sum_list (map snd col) - c \<noteq> 0" and v: "map_of nrm (replace_dot0 a) = Some ?v"
    by (simp_all add: somme_colonnePatientX_sum)
  from moy_Norm_rows_distinct [OF n'] have dn: "distinct (map fst nrm)" by simp
  from v have "(replace_dot0 a, ?v) \<in> set nrm" by (rule map_of_SomeD)
  from dictRatio_items_member [OF r dn this] obtain b where
    b: "map_of temoins (replace_dot0 a) = Some b" "b \<noteq> 0"
    and rv: "map_of dictRatio (replace_dot0 a) = Some (round_3 ops (truediv ops ?v b))"
    by blast
  have "x = round_3 ops (truediv ops ?v b)"
    if "(chr, replace_dot0 a, x, fmt) \<in> set (sheet_rows out)" for chr x fmt
    using write_amp_rows_fmt [OF w that] rv by simp
  with n r nz v b rv show ?thesis
    by (auto simp: somme_colonnePatientX_sum)
qed

theorem normalised_value_and_ratio_witness:
  "distinct (map (\<lambda>(a, c). replace_dot0 a) [(''A1'', 20 :: int), (''A2'', 10)]) \<and>
   amplicon_patient exact_ops (1 / 2) (7 / 4) (moy_Norm_TemoinsPorphy [(''A1'', 1), (''A2'', 2)])
       [(''1'', ''A1''), (''1'', ''A2'')] [(''A1'', 20), (''A2'', 10)]
     = Inr \<lparr>sheet_rows = [(''1'', ''A1'', 2, cell_formatBLUE),
                           (''1'', ''A2'', 1 / 4, cell_formatRED)],
            anomaly_lines = [(Deletion, ''1'', ''A2'', 1 / 4),
                             (Duplication, ''1'', ''A1'', 2)]\<rparr> \<and>
   (\<exists>b. map_of (moy_Norm_TemoinsPorphy [(''A1'', 1), (''A2'', 2)]) ''A2'' = Some b \<and>
        (1 / 4 :: rat) = round_3 exact_ops (truediv exact_ops (truediv exact_ops 10 20) b))"
proof -
  let ?col = "[(''A1'', 20 :: int), (''A2'', 10)]"
  let ?out = "\<lparr>sheet_rows = [(''1'', ''A1'', 2 :: rat, cell_formatBLUE),
                              (''1'', ''A2'', 1 / 4, cell_formatRED)],
               anomaly_lines = [(Deletion, ''1'', ''A2'', 1 / 4 :: rat),
                                (Duplication, ''1'', ''A1'', 2)]\<rparr>"
  have h1: "distinct (map (\<lambda>(a, c). replace_dot0 a) ?col)" by simp
  have h2: "(''A2'', 10) \<in> set ?col" by simp
  have h3: "amplicon_patient exact_ops (1 / 2) (7 / 4)
              (moy_Norm_TemoinsPorphy [(''A1'', 1), (''A2'', 2)])
              [(''1'', ''A1''), (''1'', ''A2'')] ?col = Inr ?out"
    by code_simp
  from normalised_value_and_ratio [OF h1 h2 h3] obtain b where
    b: "map_of (moy_Norm_TemoinsPorphy [(''A1'', 1), (''A2'', 2)]) (replace_dot0 ''A2'') = Some b"
    and rows: "\<And>chr x fmt. (chr, replace_dot0 ''A2'', x, fmt) \<in> set (sheet_rows ?out) \<Longrightarrow>
              x = round_3 exact_ops (truediv exact_ops
                    (truediv exact_ops (of_int 10) (of_int (sum_list (map snd ?col) - 10))) b)"
    by blast
  have m: "(''1'', replace_dot0 ''A2'', 1 / 4, cell_formatRED) \<in> set (sheet_rows ?out)"
    by simp
  from rows [OF m]
  have "(1 / 4 :: rat) = round_3 exact_ops (truediv exact_ops (truediv exact_ops 10 20) b)"
    by simp
  with b have "map_of (moy_Norm_TemoinsPorphy [(''A1'', 1), (''A2'', 2)]) ''A2'' = Some b \<and>
     (1 / 4 :: rat) = round_3 exact_ops (truediv exact_ops (truediv exact_ops 10 20) b)"
    by simp
  with h1 h3 show ?thesis by blast
qed

text \<open>
  C4 (as the code has it). When some row (amplicon \<open>a\<close>, count \<open>c\<close>) of a patient's
  column has \<open>total - c = 0\<close>, the normalisation \<^verbatim>\<open>moy_Norm_dict_patient\<close> raises
  Python's \<^verbatim>\<open>ZeroDivisionError\<close> (the script defines no error type of its own), the
  turn of the amplicon loop for that patient ends with it before anything is written
  for the patient, and a run whose coverage matrix holds that column ends with an
  error instead of an output.
\<close>

theorem zero_denominator_raises:
  assumes "(a, c) \<in> set col"
    and "sum_list (map snd col) - c = 0"
  shows "moy_Norm_dict_patient ops col = Inl ZeroDivisionError \<and>
         amplicon_patient ops d u temoins ordonnee col = Inl ZeroDivisionError \<and>
         (map_err (coverage_column (fichierListeOrdonnee refdir)) samples = Inr cols \<and>
          col \<in> set cols \<longrightarrow> (\<exists>e. cnv_script_karim ops refdir samples u d = Inl e))"
proof -
  from assms have n: "moy_Norm_dict_patient ops col = Inl ZeroDivisionError"
    by (simp add: moy_Norm_dict_patient_def moy_Norm_rows_zero somme_colonnePatientX_sum)
  then have p: "amplicon_patient ops d' u' temoins' ordonnee' col = Inl ZeroDivisionError"
    for d' u' temoins' ordonnee'
    by (simp add: amplicon_patient_def)
  have "\<exists>e. cnv_script_karim ops refdir samples u d = Inl e"
    if c: "map_err (coverage_column (fichierListeOrdonnee refdir)) samples = Inr cols"
      and m: "col \<in> set cols"
  proof -
    have "amplicon_patient ops d u (moy_Norm_TemoinsPorphy (fichierTemoin refdir))
            (fichierOrdonnee refdir) col = Inl ZeroDivisionError"
      by (rule p)
    from map_err_Inl [where f = "amplicon_patient ops d u
            (moy_Norm_TemoinsPorphy (fichierTemoin refdir)) (fichierOrdonnee refdir)", OF m this]
    obtain e' where
      "map_err (amplicon_patient ops d u (moy_Norm_TemoinsPorphy (fichierTemoin refdir))
                  (fichierOrdonnee refdir)) cols = Inl e'"
      by blast
    with c show ?thesis by (simp add: cnv_script_karim_def)
  qed
  with n p show ?thesis by blast
qed

theorem zero_denominator_raises_witness:
  "(''A1'', 10) \<in> set [(''A1'', 10 :: int)] \<and>
   sum_list (map snd [(''A1'', 10 :: int)]) - 10 = 0 \<and>
   moy_Norm_dict_patient exact_ops [(''A1'', 10)] = Inl ZeroDivisionError \<and>
   amplicon_patient exact_ops (1 / 2) (7 / 4) [(''A1'', 1)] [(''1'', ''A1'')] [(''A1'', 10)]
     = Inl ZeroDivisionError"
proof -
  have h1: "(''A1'', 10) \<in> set [(''A1'', 10 :: int)]" by simp
  have h2: "sum_list (map snd [(''A1'', 10 :: int)]) - 10 = 0" by simp
  from zero_denominator_raises [OF h1 h2, where ops = exact_ops and d = "1 / 2"
      and u = "7 / 4" and temoins = "[(''A1'', 1)]" and ordonnee = "[(''1'', ''A1'')]"] h1 h2
  show ?thesis by blast
qed

text \<open>
  A panel of one amplicon: the run ends with \<^verbatim>\<open>ZeroDivisionError\<close>; no \<^verbatim>\<open>RatioError\<close>
  exists in the script.
\<close>

theorem zero_denominator_error_type_counterexample:
  "cnv_script_karim exact_ops
     \<lparr>fichierListeOrdonnee = [(''1'', ''A1'', ''G1'')], fichierOrdonnee = [(''1'', ''A1'')],
      fichierTemoin = [(''A1'', 1)], fichierNomGenes = [''G1'']\<rparr>
     [[(''A1'', ''10'')]] (7 / 4) (1 / 2)
   = Inl ZeroDivisionError"
  by code_simp

text \<open>
  C6 (as the code has it). For a gene of the gene list that no row of the ratio sheet
  matches, the aggregation does not fail: \<^verbatim>\<open>numpy.mean\<close> of the empty list is NaN and is
  stored as the gene's aggregate. The turn of the gene loop then ends with \<^verbatim>\<open>KeyError\<close>,
  raised when the gene's row of the gene table is written, because no chromosome was
  recorded for the gene.
\<close>

theorem empty_gene_nan_then_keyerror:
  assumes "g \<in> set genes"
    and "matching_rows g feui_FMR = []"
  shows "map_of (fst (aggregate_genes ops feui_FMR genes ([], []))) g = Some NaN \<and>
         gene_patient ops d u genes feui_FMR = Inl KeyError"
proof -
  have "map_of (fst (aggregate_genes ops feui_FMR genes ([], []))) g = Some NaN"
    using assms by (simp add: aggregate_genes_ratio np_mean_def)
  moreover have "gene_patient ops d u genes feui_FMR = Inl KeyError"
    using assms by (auto simp: gene_patient_Inl)
  ultimately show ?thesis by simp
qed

theorem empty_gene_nan_then_keyerror_witness:
  "''G2'' \<in> set [''G1'', ''G2''] \<and>
   matching_rows ''G2'' [(''5'', ''G1_1'', 1 / 4)] = [] \<and>
   map_of (fst (aggregate_genes exact_ops [(''5'', ''G1_1'', 1 / 4)] [''G1'', ''G2''] ([], [])))
       ''G2''
     = Some NaN \<and>
   gene_patient exact_ops (1 / 2) (7 / 4) [''G1'', ''G2''] [(''5'', ''G1_1'', 1 / 4)]
     = Inl KeyError"
proof -
  have h1: "''G2'' \<in> set [''G1'', ''G2'']" by simp
  have h2: "matching_rows ''G2'' [(''5'', ''G1_1'', 1 / 4)] = []" by code_simp
  from empty_gene_nan_then_keyerror [OF h1 h2, where ops = exact_ops and d = "1 / 2"
      and u = "7 / 4"] h1 h2
  show ?thesis by blast
qed

text \<open>The aggregation of a gene without rows returns NaN for it, and no error.\<close>

theorem empty_gene_silent_nan_counterexample:
  "aggregate_genes exact_ops [(''5'', ''G1_1'', 1 / 4)] [''G1'', ''G2''] ([], [])
     = ([(''G1'', Fin (1 / 4)), (''G2'', NaN)], [(''G1'', ''5'')])"
  by code_simp

text \<open>
  C7 (as the code has it). In a turn of the gene loop that completes, every gene of the
  gene list, suppressed or not, has a row in the gene table holding its mean ratio, and
  every row of the gene holds that mean. The format of the row is the only
  classification the table carries: red when the ratio is below the deletion threshold
  and blue when it reaches the duplication threshold, for a gene that is not an
  identity marker. For an identity marker the row is always unformatted, so its
  classification is not emitted, and no line of the anomaly text names it.
\<close>

theorem suppressed_gene_ratio_without_classification:
  assumes "gene_patient ops d u genes feui_FMR = Inr out"
    and "g \<in> set genes"
  shows "(\<exists>n chr fmt.
            (n, chr, g, np_mean ops (map (\<lambda>(chr, a, r). r) (matching_rows g feui_FMR)), fmt)
              \<in> set (gene_rows out)) \<and>
         (\<forall>n chr r fmt. (n, chr, g, r, fmt) \<in> set (gene_rows out) \<longrightarrow>
            r = np_mean ops (map (\<lambda>(chr, a, r). r) (matching_rows g feui_FMR)) \<and>
            fmt = (if pf_lt r d \<and> g \<notin> set listeGeneNonInterets then cell_formatRED
                   else if pf_ge r u \<and> g \<notin> set listeGeneNonInterets then cell_formatBLUE
                   else no_format)) \<and>
         (g \<in> set listeGeneNonInterets \<longrightarrow>
            (\<forall>n chr r fmt. (n, chr, g, r, fmt) \<in> set (gene_rows out) \<longrightarrow> fmt = no_format) \<and>
            (\<forall>k chr r. (k, chr, g, r) \<notin> set (gene_lines out)))"
proof -
  from gene_patient_Inr [OF assms(1)] obtain dr dc dels dups where
    agg: "aggregate_genes ops feui_FMR genes ([], []) = (dr, dc)"
    and dels: "gene_deletion_lines d dr dc genes = Inr dels"
    and dups: "gene_duplication_lines u dr dc genes = Inr dups"
    and w: "write_gene_rows d u dr dc 1 genes = Inr (gene_rows out)"
    and l: "gene_lines out = dels @ dups"
    by blast
  let ?m = "np_mean ops (map (\<lambda>(chr, a, r). r) (matching_rows g feui_FMR))"
  have m: "map_of dr g = Some ?m"
    by (rule aggregate_genes_dr [OF agg assms(2)])
  have row: "r = ?m \<and>
            fmt = (if pf_lt r d \<and> g \<notin> set listeGeneNonInterets then cell_formatRED
                   else if pf_ge r u \<and> g \<notin> set listeGeneNonInterets then cell_formatBLUE
                   else no_format)"
    if "(n, chr, g, r, fmt) \<in> set (gene_rows out)" for n chr r fmt
    using write_gene_rows_row [OF w that] m by simp
  from write_gene_rows_genes [OF w] assms(2)
  have "g \<in> set (map (\<lambda>(n, chr, g, r, fmt). g) (gene_rows out))" by simp
  then obtain n chr r fmt where mem: "(n, chr, g, r, fmt) \<in> set (gene_rows out)"
    by auto
  with row have ex: "\<exists>n chr fmt. (n, chr, g, ?m, fmt) \<in> set (gene_rows out)"
    by blast
  have lines: "(k, chr, g, r) \<notin> set (gene_lines out)"
    if "g \<in> set listeGeneNonInterets" for k chr r
    using that gene_deletion_lines_line [OF dels, of k chr g r]
      gene_duplication_lines_line [OF dups, of k chr g r]
    by (auto simp: l)
  from ex row lines show ?thesis by auto
qed

theorem suppressed_gene_ratio_without_classification_witness:
  "gene_patient exact_ops (1 / 2) (7 / 4) [''PENTA'', ''X1''] [(''5'', ''PENTA_X1'', 1 / 4)]
     = Inr \<lparr>gene_lines = [(Deletion, ''5'', ''X1'', Fin (1 / 4))],
            gene_rows = [(1, ''5'', ''PENTA'', Fin (1 / 4), no_format),
                         (2, ''5'', ''X1'', Fin (1 / 4), cell_formatRED)],
            gene_points = \<lparr>ind1 = [2], seq1y = [Fin (1 / 4)], ind2 = [], seq2y = [],
                            ind3 = [], seq3y = [], dictSticks = [(''X1'', 2)]\<rparr>\<rparr> \<and>
   ''PENTA'' \<in> set [''PENTA'', ''X1''] \<and>
   Fin (1 / 4) = np_mean exact_ops (map (\<lambda>(chr, a, r). r)
                     (matching_rows ''PENTA'' [(''5'', ''PENTA_X1'', 1 / 4)]))"
proof -
  let ?out = "\<lparr>gene_lines = [(Deletion, ''5'', ''X1'', Fin (1 / 4))],
            gene_rows = [(1, ''5'', ''PENTA'', Fin (1 / 4), no_format),
                         (2, ''5'', ''X1'', Fin (1 / 4), cell_formatRED)],
            gene_points = \<lparr>ind1 = [2], seq1y = [Fin (1 / 4)], ind2 = [], seq2y = [],
                            ind3 = [], seq3y = [], dictSticks = [(''X1'', 2)]\<rparr>\<rparr>"
  have h1: "gene_patient exact_ops (1 / 2) (7 / 4) [''PENTA'', ''X1'']
              [(''5'', ''PENTA_X1'', 1 / 4)] = Inr ?out"
    by code_simp
  have h2: "''PENTA'' \<in> set [''PENTA'', ''X1'']" by simp
  have m: "(1, ''5'', ''PENTA'', Fin (1 / 4), no_format) \<in> set (gene_rows ?out)"
    by simp
  from suppressed_gene_ratio_without_classification [OF h1 h2]
  have "\<forall>n chr r fmt. (n, chr, ''PENTA'', r, fmt) \<in> set (gene_rows ?out) \<longrightarrow>
            r = np_mean exact_ops (map (\<lambda>(chr, a, r). r)
                  (matching_rows ''PENTA'' [(''5'', ''PENTA_X1'', 1 / 4)])) \<and>
            fmt = (if pf_lt r (1 / 2) \<and> ''PENTA'' \<notin> set listeGeneNonInterets then cell_formatRED
                   else if pf_ge r (7 / 4) \<and> ''PENTA'' \<notin> set listeGeneNonInterets
                   then cell_formatBLUE else no_format)"
    by blast
  with m have "Fin (1 / 4) = np_mean exact_ops (map (\<lambda>(chr, a, r). r)
                     (matching_rows ''PENTA'' [(''5'', ''PENTA_X1'', 1 / 4)]))"
    by blast
  with h1 h2 show ?thesis by blast
qed

text \<open>
  The identity marker PENTA and the gene X1 match the same amplicon and have the same
  mean ratio 0.25, below the deletion threshold: the row of X1 is red, the row of PENTA
  is not.
\<close>

theorem suppressed_gene_classification_counterexample:
  "gene_patient exact_ops (1 / 2) (7 / 4) [''PENTA'', ''X1''] [(''5'', ''PENTA_X1'', 1 / 4)]
     = Inr \<lparr>gene_lines = [(Deletion, ''5'', ''X1'', Fin (1 / 4))],
            gene_rows = [(1, ''5'', ''PENTA'', Fin (1 / 4), no_format),
                         (2, ''5'', ''X1'', Fin (1 / 4), cell_formatRED)],
            gene_points = \<lparr>ind1 = [2], seq1y = [Fin (1 / 4)], ind2 = [], seq2y = [],
                            ind3 = [], seq3y = [], dictSticks = [(''X1'', 2)]\<rparr>\<rparr>"
  by code_simp




text \<open>
  C2 (as the code has it). For every gene \<open>g\<close> of the gene list, the aggregate stored
  for \<open>g\<close> is \<^verbatim>\<open>numpy.mean\<close> (NaN when there is no value) of the ratios, in the order of
  the rows, of exactly those rows of the ratio sheet whose amplicon id, after
  \<^verbatim>\<open>replace(".0", "")\<close>, contains \<open>g\<close> as a substring; the panel's gene index is not
  consulted.
\<close>

theorem gene_aggregate_mean_of_substring_matches:
  assumes "g \<in> set genes"
    and "aggregate_genes ops feui_FMR genes ([], []) = (dictRatioParGene, dictChromoso)"
  shows "map_of dictRatioParGene g
           = Some (np_mean ops (map (\<lambda>(chr, a, r). r) (matching_rows g feui_FMR))) \<and>
         matching_rows g feui_FMR
           = filter (\<lambda>(chr, a, r). \<exists>p s. replace_dot0 a = p @ g @ s) feui_FMR \<and>
         (np_mean ops (map (\<lambda>(chr, a, r). r) (matching_rows g feui_FMR)) = NaN
            \<longleftrightarrow> matching_rows g feui_FMR = [])"
proof -
  have "map_of dictRatioParGene g
          = Some (np_mean ops (map (\<lambda>(chr, a, r). r) (matching_rows g feui_FMR)))"
    by (rule aggregate_genes_dr [OF assms(2) assms(1)])
  moreover have "matching_rows g feui_FMR
           = filter (\<lambda>(chr, a, r). \<exists>p s. replace_dot0 a = p @ g @ s) feui_FMR"
    unfolding matching_rows_def
    by (rule filter_cong) (auto simp: str_contains_iff)
  moreover have "np_mean ops (map (\<lambda>(chr, a, r). r) (matching_rows g feui_FMR)) = NaN
            \<longleftrightarrow> matching_rows g feui_FMR = []"
    by (simp add: np_mean_NaN)
  ultimately show ?thesis by blast
qed

theorem gene_aggregate_mean_of_substring_matches_witness:
  "''AB'' \<in> set [''AB'', ''XAB''] \<and>
   aggregate_genes exact_ops [(''1'', ''AB_1'', 1), (''2'', ''XAB_1'', 3)] [''AB'', ''XAB'']
       ([], [])
     = ([(''AB'', Fin 2), (''XAB'', Fin 3)], [(''AB'', ''2''), (''XAB'', ''2'')]) \<and>
   map_of [(''AB'', Fin 2), (''XAB'', Fin 3)] ''AB''
     = Some (np_mean exact_ops (map (\<lambda>(chr, a, r). r)
         (matching_rows ''AB'' [(''1'', ''AB_1'', 1), (''2'', ''XAB_1'', 3)])))"
proof -
  have h1: "''AB'' \<in> set [''AB'', ''XAB'']" by simp
  have h2: "aggregate_genes exact_ops [(''1'', ''AB_1'', 1), (''2'', ''XAB_1'', 3)]
              [''AB'', ''XAB''] ([], [])
            = ([(''AB'', Fin 2), (''XAB'', Fin 3)], [(''AB'', ''2''), (''XAB'', ''2'')])"
    by code_simp
  from gene_aggregate_mean_of_substring_matches [OF h1 h2] h1 h2
  show ?thesis by blast
qed

text \<open>
  The panel maps amplicon AB_1 to gene AB and amplicon XAB_1 to gene XAB. The id XAB_1
  contains the text AB, so the code averages both ratios for AB (mean 2), where the
  gene index gives the ratio of AB_1 alone (mean 1).
\<close>

theorem gene_aggregate_gene_index_counterexample:
  "map_of (fst (aggregate_genes exact_ops [(''1'', ''AB_1'', 1), (''2'', ''XAB_1'', 3)]
                  [''AB'', ''XAB''] ([], []))) ''AB'' = Some (Fin 2) \<and>
   spec_GeneAggregate exact_ops
       (dictAmpliGene [(''1'', ''AB_1'', ''AB''), (''2'', ''XAB_1'', ''XAB'')])
       [(''1'', ''AB_1'', 1), (''2'', ''XAB_1'', 3)] ''AB'' = Fin 1"
  by code_simp

text \<open>
  C9 (as the code has it). Building a patient's column of the coverage matrix checks
  nothing about the counts. The column is built iff every panel amplicon has an entry
  in the patient's sheet whose text \<^verbatim>\<open>int(...)\<close> accepts; then each count written is
  that integer, whatever its sign: a negative literal is accepted and written
  unchanged. Otherwise the run ends with \<^verbatim>\<open>KeyError\<close> (an amplicon is missing) or
  \<^verbatim>\<open>ValueError\<close> (a text is no integer); the script has no \<^verbatim>\<open>CoverageError\<close>.
\<close>

theorem coverage_matrix_counts_unchecked:
  "((\<exists>col. coverage_column panel sample = Inr col) \<longleftrightarrow>
      (\<forall>a \<in> set (listOrdonneeAMP panel).
         \<exists>txt n. map_of (dictPatientEnCours sample) a = Some txt \<and> py_int txt = Inr n)) \<and>
   (\<forall>e. coverage_column panel sample = Inl e \<longrightarrow> e = KeyError \<or> e = ValueError) \<and>
   (\<forall>col. coverage_column panel sample = Inr col \<longrightarrow>
      map fst col = listOrdonneeAMP panel \<and>
      (\<forall>a n. (a, n) \<in> set col \<longrightarrow>
         (\<exists>txt. map_of (dictPatientEnCours sample) a = Some txt \<and> py_int txt = Inr n))) \<and>
   (\<forall>t n. py_digits t = Some n \<longrightarrow> py_int (CHR ''-'' # t) = Inr (- int n))"
proof -
  let ?dg = "dictAmpliGene panel" and ?dp = "dictPatientEnCours sample"
    and ?amps = "listOrdonneeAMP panel"
  have col_rows: "(\<exists>col. coverage_column panel sample = Inr col) \<longleftrightarrow>
                    (\<exists>rows. coverage_rows ?dg ?dp ?amps = Inr rows)"
    by (auto simp: coverage_column_def split: sum.splits)
  have 1: "(\<exists>col. coverage_column panel sample = Inr col) \<longleftrightarrow>
      (\<forall>a \<in> set ?amps. \<exists>txt n. map_of ?dp a = Some txt \<and> py_int txt = Inr n)"
    unfolding col_rows coverage_rows_Inr_iff using dictAmpliGene_defined by blast
  have 2: "e = KeyError \<or> e = ValueError" if "coverage_column panel sample = Inl e" for e
  proof -
    from that have "coverage_rows ?dg ?dp ?amps = Inl e"
      by (auto simp: coverage_column_def split: sum.splits)
    then show ?thesis by (rule coverage_rows_Inl)
  qed
  have 3: "map fst col = ?amps \<and>
      (\<forall>a n. (a, n) \<in> set col \<longrightarrow>
         (\<exists>txt. map_of ?dp a = Some txt \<and> py_int txt = Inr n))"
    if "coverage_column panel sample = Inr col" for col
  proof -
    from that obtain rows where rows: "coverage_rows ?dg ?dp ?amps = Inr rows"
      and col: "col = map (\<lambda>(gene, a, n). (a, n)) rows"
      by (auto simp: coverage_column_def split: sum.splits)
    from coverage_rows_row [OF rows]
    have a: "map (\<lambda>(g, a, n). a) rows = ?amps"
      and b: "\<And>g a n. (g, a, n) \<in> set rows \<Longrightarrow>
                \<exists>txt. map_of ?dp a = Some txt \<and> py_int txt = Inr n"
      by blast+
    have "map fst col = map (\<lambda>(g, a, n). a) rows"
      by (simp add: col case_prod_beta comp_def)
    with a have "map fst col = ?amps" by simp
    moreover have "\<exists>txt. map_of ?dp a = Some txt \<and> py_int txt = Inr n"
      if "(a, n) \<in> set col" for a n
    proof -
      from that col obtain g where "(g, a, n) \<in> set rows" by auto
      then show ?thesis by (rule b)
    qed
    ultimately show ?thesis by blast
  qed
  from 1 2 3 py_int_negative show ?thesis by blast
qed

theorem coverage_matrix_counts_unchecked_witness:
  "py_digits ''5'' = Some 5 \<and> py_int ''-5'' = Inr (- int 5) \<and>
   coverage_column [(''1'', ''A1'', ''G1''), (''1'', ''A2'', ''G1'')] [(''A1'', ''5'')]
     = Inl KeyError \<and>
   (KeyError = KeyError \<or> KeyError = ValueError)"
proof -
  have h1: "py_digits ''5'' = Some 5" by code_simp
  have h2: "coverage_column [(''1'', ''A1'', ''G1''), (''1'', ''A2'', ''G1'')] [(''A1'', ''5'')]
              = Inl KeyError"
    by code_simp
  from coverage_matrix_counts_unchecked
    [of "[(''1'', ''A1'', ''G1''), (''1'', ''A2'', ''G1'')]" "[(''A1'', ''5'')]"]
  have "\<forall>t n. py_digits t = Some n \<longrightarrow> py_int (CHR ''-'' # t) = Inr (- int n)"
    and "\<forall>e. coverage_column [(''1'', ''A1'', ''G1''), (''1'', ''A2'', ''G1'')]
                [(''A1'', ''5'')] = Inl e \<longrightarrow> e = KeyError \<or> e = ValueError"
    by blast+
  with h1 h2 show ?thesis by blast
qed

text \<open>A negative read count goes through unchanged: no error of any type.\<close>

theorem coverage_negative_count_counterexample:
  "coverage_column [(''1'', ''A1'', ''G1''), (''1'', ''A2'', ''G1'')]
       [(''A1'', ''-5''), (''A2'', ''30'')]
     = Inr [(''A1'', - 5), (''A2'', 30)]"
  by code_simp

text \<open>
  C8 (as the code has it). Nothing in \<^verbatim>\<open>main\<close> or \<^verbatim>\<open>cnv_script_karim\<close> compares the two
  thresholds: whether a run ends with an error, and with which one, is the same for
  every pair of thresholds, so no pair makes a run fail. With
  \<open>deletion_threshold \<ge> duplication_threshold\<close> the run classifies as with any other
  pair, the deletion branch coming first.
\<close>

theorem thresholds_never_checked:
  "(cnv_script_karim ops refdir samples u d = Inl e)
     = (cnv_script_karim ops refdir samples u' d' = Inl e)"
  using cnv_script_karim_Inl_thresholds [of ops refdir samples u d e u' d']
    cnv_script_karim_Inl_thresholds [of ops refdir samples u' d' e u d]
  by blast

text \<open>
  Deletion threshold 3, duplication threshold 1: the run completes; the amplicon with
  ratio 2 is written red and listed both as a deletion and as a duplication, and so
  is the gene with mean ratio 1.125.
\<close>

theorem thresholds_inverted_run_counterexample:
  "cnv_script_karim exact_ops
     \<lparr>fichierListeOrdonnee = [(''1'', ''A1'', ''G1''), (''1'', ''A2'', ''G1'')],
      fichierOrdonnee = [(''1'', ''A1''), (''1'', ''A2'')],
      fichierTemoin = [(''A1'', 1), (''A2'', 2)], fichierNomGenes = [''A'']\<rparr>
     [[(''A1'', ''20''), (''A2'', ''10'')]] 1 3
   = Inr \<lparr>amp_outputs =
            [\<lparr>sheet_rows = [(''1'', ''A1'', 2, cell_formatRED),
                             (''1'', ''A2'', 1 / 4, cell_formatRED)],
              anomaly_lines = [(Deletion, ''1'', ''A1'', 2),
                               (Deletion, ''1'', ''A2'', 1 / 4),
                               (Duplication, ''1'', ''A1'', 2)]\<rparr>],
          gene_outputs =
            [\<lparr>gene_lines = [(Deletion, ''1'', ''A'', Fin (9 / 8)),
                             (Duplication, ''1'', ''A'', Fin (9 / 8))],
              gene_rows = [(1, ''1'', ''A'', Fin (9 / 8), cell_formatRED)],
              gene_points = \<lparr>ind1 = [1], seq1y = [Fin (9 / 8)], ind2 = [], seq2y = [],
                              ind3 = [], seq3y = [], dictSticks = [(''A'', 1)]\<rparr>\<rparr>]\<rparr>"
  by code_simp

theorem thresholds_never_checked_witness:
  "cnv_script_karim exact_ops
     \<lparr>fichierListeOrdonnee = [(''1'', ''A1'', ''G1'')], fichierOrdonnee = [(''1'', ''A1'')],
      fichierTemoin = [(''A1'', 1)], fichierNomGenes = [''G1'']\<rparr>
     [[(''A1'', ''10'')]] 1 3
   = Inl ZeroDivisionError"
proof -
  have "cnv_script_karim exact_ops
     \<lparr>fichierListeOrdonnee = [(''1'', ''A1'', ''G1'')], fichierOrdonnee = [(''1'', ''A1'')],
      fichierTemoin = [(''A1'', 1)], fichierNomGenes = [''G1'']\<rparr>
     [[(''A1'', ''10'')]] (7 / 4) (1 / 2)
   = Inl ZeroDivisionError"
    by code_simp
  then show ?thesis
    by (simp only: thresholds_never_checked [of _ _ _ "7 / 4" "1 / 2" _ 1 3])
qed

text \<open>
  C5 (as the code has it). Loading the control baseline (\<^verbatim>\<open>moy_Norm_TemoinsPorphy\<close>)
  checks nothing and cannot fail: a run without samples completes whatever the
  baseline rows are. A baseline is first used in the ratio computation of a sample,
  which succeeds iff every normalised amplicon has a baseline entry different from 0,
  of either sign; it ends with \<^verbatim>\<open>KeyError\<close> for a missing entry and with
  \<^verbatim>\<open>ZeroDivisionError\<close> for an entry 0, and that error ends the sample's turn of the
  amplicon loop. A negative baseline raises nothing.
\<close>

theorem baseline_checked_only_by_division:
  "cnv_script_karim ops refdir [] u d = Inr \<lparr>amp_outputs = [], gene_outputs = []\<rparr> \<and>
   ((\<exists>dictRatio. dictRatio_items ops temoins nrm [] = Inr dictRatio) \<longleftrightarrow>
      (\<forall>k \<in> fst ` set nrm. \<exists>b. map_of temoins k = Some b \<and> b \<noteq> 0)) \<and>
   (\<forall>e. dictRatio_items ops temoins nrm [] = Inl e \<longrightarrow>
      (e = KeyError \<and> (\<exists>k \<in> fst ` set nrm. map_of temoins k = None)) \<or>
      (e = ZeroDivisionError \<and> (\<exists>k \<in> fst ` set nrm. map_of temoins k = Some 0))) \<and>
   (\<forall>e. moy_Norm_dict_patient ops col = Inr nrm \<and> dictRatio_items ops temoins nrm [] = Inl e \<longrightarrow>
      amplicon_patient ops d u temoins ordonnee col = Inl e)"
proof -
  have 1: "cnv_script_karim ops refdir [] u d = Inr \<lparr>amp_outputs = [], gene_outputs = []\<rparr>"
    by (simp add: cnv_script_karim_def)
  have 4: "amplicon_patient ops d u temoins ordonnee col = Inl e"
    if "moy_Norm_dict_patient ops col = Inr nrm \<and> dictRatio_items ops temoins nrm [] = Inl e" for e
    using that by (simp add: amplicon_patient_def)
  from 1 4 dictRatio_items_Inr_iff [of ops temoins nrm "[]"]
    dictRatio_items_Inl [of ops temoins nrm "[]"]
  show ?thesis by blast
qed

theorem baseline_checked_only_by_division_witness:
  "moy_Norm_dict_patient exact_ops [(''A1'', 20), (''A2'', 10)]
     = Inr [(''A1'', 2), (''A2'', 1 / 2)] \<and>
   dictRatio_items exact_ops (moy_Norm_TemoinsPorphy [(''A1'', 0), (''A2'', 2)])
       [(''A1'', 2), (''A2'', 1 / 2)] [] = Inl ZeroDivisionError \<and>
   amplicon_patient exact_ops (1 / 2) (7 / 4) (moy_Norm_TemoinsPorphy [(''A1'', 0), (''A2'', 2)])
       [(''1'', ''A1''), (''1'', ''A2'')] [(''A1'', 20), (''A2'', 10)]
     = Inl ZeroDivisionError"
proof -
  have h1: "moy_Norm_dict_patient exact_ops [(''A1'', 20), (''A2'', 10)]
              = Inr [(''A1'', 2), (''A2'', 1 / 2)]"
    by code_simp
  have h2: "dictRatio_items exact_ops (moy_Norm_TemoinsPorphy [(''A1'', 0), (''A2'', 2)])
              [(''A1'', 2), (''A2'', 1 / 2)] [] = Inl ZeroDivisionError"
    by code_simp
  from baseline_checked_only_by_division
    [where ops = exact_ops and temoins = "moy_Norm_TemoinsPorphy [(''A1'', 0), (''A2'', 2)]"
        and nrm = "[(''A1'', 2), (''A2'', 1 / 2)]" and col = "[(''A1'', 20), (''A2'', 10)]"
        and d = "1 / 2" and u = "7 / 4" and ordonnee = "[(''1'', ''A1''), (''1'', ''A2'')]"]
    h1 h2
  show ?thesis by blast
qed

text \<open>
  A baseline of 0 and no sample: the run completes. A baseline of -1 and a sample: the
  turn of the amplicon loop completes, with a negative ratio.
\<close>

theorem baseline_not_validated_counterexample:
  "cnv_script_karim exact_ops
     \<lparr>fichierListeOrdonnee = [(''1'', ''A1'', ''G1''), (''1'', ''A2'', ''G1'')],
      fichierOrdonnee = [(''1'', ''A1''), (''1'', ''A2'')],
      fichierTemoin = [(''A1'', 0)], fichierNomGenes = [''A'']\<rparr>
     [] (7 / 4) (1 / 2)
   = Inr \<lparr>amp_outputs = [], gene_outputs = []\<rparr> \<and>
   amplicon_patient exact_ops (1 / 2) (7 / 4) (moy_Norm_TemoinsPorphy [(''A1'', - 1), (''A2'', 2)])
       [(''1'', ''A1''), (''1'', ''A2'')] [(''A1'', 20), (''A2'', 10)]
     = Inr \<lparr>sheet_rows = [(''1'', ''A1'', - 2, cell_formatRED),
                           (''1'', ''A2'', 1 / 4, cell_formatRED)],
            anomaly_lines = [(Deletion, ''1'', ''A1'', - 2),
                             (Deletion, ''1'', ''A2'', 1 / 4)]\<rparr>"
  by code_simp

end
